theory Spec2Isabelle
  imports Main "HOL-Library.Word"
begin

unbundle bit_operations_syntax

section \<open>JavaScript strings\<close>

text \<open>
  A JavaScript string is a sequence of UTF-16 code units. \<open>length\<close>, \<open>slice\<close> and
  \<open>lastIndexOf\<close> count code units; the string iterator (\<open>for (const ch of s)\<close>) and the
  UTF-8 encoder of Node's \<open>Buffer\<close> work on code points, pairing a high surrogate with
  the low surrogate that follows it.
\<close>

type_synonym jstring = "16 word list"

definition ascii :: "string \<Rightarrow> jstring" where
  "ascii cs = map (\<lambda>c. of_nat (of_char c)) cs"

definition isHigh :: "16 word \<Rightarrow> bool" where
  "isHigh u = (0xD800 \<le> u \<and> u \<le> 0xDBFF)"

definition isLow :: "16 word \<Rightarrow> bool" where
  "isLow u = (0xDC00 \<le> u \<and> u \<le> 0xDFFF)"

text \<open>\<open>s.slice(a, b)\<close> for \<open>0 \<le> a \<le> b\<close>: both ends are clamped to the length.\<close>

definition sliceStr :: "jstring \<Rightarrow> nat \<Rightarrow> nat \<Rightarrow> jstring" where
  "sliceStr s a b = take (b - a) (drop a s)"

text \<open>The string iterator: one string per code point, a lone surrogate on its own.\<close>

fun codePoints :: "jstring \<Rightarrow> jstring list" where
  "codePoints [] = []"
| "codePoints [u] = [[u]]"
| "codePoints (u # v # r) =
     (if isHigh u \<and> isLow v then [u, v] # codePoints r else [u] # codePoints (v # r))"

text \<open>
  The UTF-8 bytes of one code unit outside the surrogate range, of a surrogate pair, and
  the replacement character U+FFFD that Node writes for a lone surrogate.
\<close>

definition utf8Unit :: "16 word \<Rightarrow> 8 word list" where
  "utf8Unit u =
     (if u < 0x80 then [ucast u]
      else if u < 0x800 then [0xC0 OR ucast (drop_bit 6 u), 0x80 OR ucast (u AND 0x3F)]
      else [0xE0 OR ucast (drop_bit 12 u), 0x80 OR ucast (drop_bit 6 u AND 0x3F),
            0x80 OR ucast (u AND 0x3F)])"

definition utf8Pair :: "16 word \<Rightarrow> 16 word \<Rightarrow> 8 word list" where
  "utf8Pair u v =
     (let c = 0x10000 + push_bit 10 (ucast (u AND 0x3FF)) + ucast (v AND 0x3FF) :: 32 word
      in [0xF0 OR ucast (drop_bit 18 c), 0x80 OR ucast (drop_bit 12 c AND 0x3F),
          0x80 OR ucast (drop_bit 6 c AND 0x3F), 0x80 OR ucast (c AND 0x3F)])"

definition utf8Replacement :: "8 word list" where
  "utf8Replacement = [0xEF, 0xBF, 0xBD]"

text \<open>\<open>Buffer.from(s, "utf8")\<close>.\<close>

fun utf8Encode :: "jstring \<Rightarrow> 8 word list" where
  "utf8Encode [] = []"
| "utf8Encode (u # r) =
     (if isHigh u then
        (case r of
           [] \<Rightarrow> utf8Replacement
         | v # r' \<Rightarrow>
             if isLow v then utf8Pair u v @ utf8Encode r'
             else utf8Replacement @ utf8Encode r)
      else if isLow u then utf8Replacement @ utf8Encode r
      else utf8Unit u @ utf8Encode r)"

text \<open>\<open>utf8ByteLength(s) = Buffer.byteLength(s, "utf8")\<close>.\<close>

definition utf8ByteLength :: "jstring \<Rightarrow> nat" where
  "utf8ByteLength s = length (utf8Encode s)"

section \<open>Truncation to a byte budget\<close>

text \<open>
  The loop of \<open>truncUtf8\<close>: \<open>out\<close> grows by one code point at a time and the loop breaks
  at the first code point that would exceed \<open>maxBytes\<close>.
\<close>

fun truncLoop :: "jstring list \<Rightarrow> int \<Rightarrow> jstring \<Rightarrow> jstring" where
  "truncLoop [] maxBytes out = out"
| "truncLoop (ch # chs) maxBytes out =
     (let next = out @ ch
      in if int (utf8ByteLength next) > maxBytes then out
         else truncLoop chs maxBytes next)"

definition truncUtf8 :: "jstring \<Rightarrow> int \<Rightarrow> jstring" where
  "truncUtf8 s maxBytes =
     (if int (utf8ByteLength s) \<le> maxBytes then s
      else truncLoop (codePoints s) maxBytes [])"

section \<open>Number and string helpers of the runtime\<close>

definition isDigit :: "16 word \<Rightarrow> bool" where
  "isDigit u = (0x30 \<le> u \<and> u \<le> 0x39)"

text \<open>The regular expression \<open>/^\d{2}$/\<close>.\<close>

definition twoDigits :: "jstring \<Rightarrow> bool" where
  "twoDigits s = (length s = 2 \<and> list_all isDigit s)"

text \<open>The character of a digit below 16: \<open>0\<close> to \<open>9\<close>, then \<open>a\<close> to \<open>f\<close>.\<close>

definition digitChar :: "nat \<Rightarrow> 16 word" where
  "digitChar d = (if d < 10 then of_nat (48 + d) else of_nat (87 + d))"

text \<open>\<open>String(n)\<close> and \<open>n.toString(16)\<close> for a non-negative integer \<open>n\<close>.\<close>

fun decimal :: "nat \<Rightarrow> jstring" where
  "decimal n = (if n < 10 then [digitChar n] else decimal (n div 10) @ [digitChar (n mod 10)])"

fun toString16 :: "nat \<Rightarrow> jstring" where
  "toString16 n =
     (if n < 16 then [digitChar n] else toString16 (n div 16) @ [digitChar (n mod 16)])"

declare decimal.simps [simp del] toString16.simps [simp del]

text \<open>\<open>String(i)\<close> for an integer (the clock reading \<open>Date.now()\<close>).\<close>

definition stringOfInt :: "int \<Rightarrow> jstring" where
  "stringOfInt i = (if i < 0 then 0x2D # decimal (nat (- i)) else decimal (nat i))"

text \<open>\<open>Number(s)\<close> for a string of decimal digits.\<close>

definition numberOfDigits :: "jstring \<Rightarrow> nat" where
  "numberOfDigits s = foldl (\<lambda>n u. 10 * n + (unat u - 48)) 0 s"

definition padStart :: "nat \<Rightarrow> 16 word \<Rightarrow> jstring \<Rightarrow> jstring" where
  "padStart n c s = replicate (n - length s) c @ s"

text \<open>
  \<open>toUpperCase\<close>. The code compares its result only with upper-case ASCII strings: the
  currency codes \<open>"KHR"\<close> and \<open>"USD"\<close>, and the four hexadecimal digits of a checksum
  against four code units of the input. The code units whose upper-case form is one ASCII
  character are the ASCII letters, U+0131 (to \<open>I\<close>) and U+017F (to \<open>S\<close>); these are mapped
  and every other code unit is kept. A character with a longer upper-case form (U+00DF to
  \<open>SS\<close>, the ligatures U+FB00 to U+FB06) gives a text longer than the four characters of a
  checksum and a letter pair that occurs in neither currency code, so keeping such a
  character decides every comparison of the code the same way.
\<close>

definition upperUnit :: "16 word \<Rightarrow> 16 word" where
  "upperUnit u =
     (if 0x61 \<le> u \<and> u \<le> 0x7A then u - 0x20
      else if u = 0x131 then 0x49
      else if u = 0x17F then 0x53
      else u)"

definition toUpperCase :: "jstring \<Rightarrow> jstring" where
  "toUpperCase s = map upperUnit s"

section \<open>TLV encoding\<close>

datatype field = BakongAccountID | MerchantName | MerchantID | AcquiringBank

text \<open>
  The errors the code throws: \<open>Required f\<close> is "\<open>f\<close> is required",
  \<open>InvalidTag\<close> is "Invalid tag", \<open>ValueTooLong tag len\<close> is "TLV value too long for
  tag", \<open>InvalidCurrency\<close> is "currency must be KHR or USD", the three amount errors are
  "Amount must be numeric", "Amount must be finite" and "Amount must be >= 0", and
  \<open>TypeError\<close> is what \<open>Buffer.byteLength(undefined)\<close> throws.
\<close>

datatype error =
    Required field
  | InvalidTag jstring
  | ValueTooLong jstring nat
  | InvalidCurrency
  | AmountNotNumeric
  | AmountNotFinite
  | AmountNegative
  | TypeError

definition tlv :: "jstring \<Rightarrow> jstring \<Rightarrow> error + jstring" where
  "tlv tag val =
     (if \<not> twoDigits tag then Inl (InvalidTag tag)
      else let len = utf8ByteLength val
           in if len > 99 then Inl (ValueTooLong tag len)
              else Inr (tag @ padStart 2 0x30 (decimal len) @ val))"

section \<open>CRC-16/CCITT-FALSE\<close>

text \<open>
  The register \<open>crc\<close> is a JavaScript number. The bitwise operators work on its 32-bit
  integer value; the register is masked to 16 bits after every round (\<open>crcBytes_range\<close>)
  and a shift adds one bit, so no operation leaves the 32-bit range and the integer
  operations are exact. The inner loop runs eight rounds.
\<close>

fun crcRounds :: "nat \<Rightarrow> int \<Rightarrow> int" where
  "crcRounds 0 crc = crc"
| "crcRounds (Suc k) crc =
     crcRounds k
       ((if crc AND 0x8000 \<noteq> 0 then push_bit 1 crc XOR 0x1021 else push_bit 1 crc)
        AND 0xFFFF)"

fun crcBytes :: "8 word list \<Rightarrow> int \<Rightarrow> int" where
  "crcBytes [] crc = crc"
| "crcBytes (b # bs) crc =
     crcBytes bs (crcRounds 8 (crc XOR push_bit 8 (uint b AND 0xFF)))"

definition crc16CcittFalseHex :: "jstring \<Rightarrow> jstring" where
  "crc16CcittFalseHex input =
     padStart 4 0x30 (toUpperCase (toString16 (nat (crcBytes (utf8Encode input) 0xFFFF))))"

section \<open>The generator\<close>

datatype merchantType = Individual | Merchant

datatype currency = KHR | USD

text \<open>
  The private fields of \<open>KHQRGenerator\<close>. A field declared with \<open>?\<close> is \<open>undefined\<close>
  (\<open>None\<close>) until its setter is called.
\<close>

record generator =
  merchantType :: merchantType
  bakongAccountId :: "jstring option"
  merchantName :: "jstring option"
  merchantId :: "jstring option"
  acquiringBank :: "jstring option"
  accountInformation :: "jstring option"
  merchantCity :: jstring
  currency :: currency
  amount :: "jstring option"
  billNumber :: "jstring option"
  mobileNumber :: "jstring option"
  storeLabel :: "jstring option"
  terminalLabel :: "jstring option"
  purposeOfTransaction :: "jstring option"
  upiAccountInformation :: "jstring option"
  merchantAlternateLanguagePreference :: "jstring option"
  merchantNameAlternateLanguage :: "jstring option"
  merchantCityAlternateLanguage :: "jstring option"
  isStatic :: bool

text \<open>
  What the code takes from outside: the clock reading \<open>Date.now()\<close>, the MD5 digest of
  \<open>node:crypto\<close> (hexadecimal, of the UTF-8 bytes of its argument), and
  \<open>Number(s).toFixed(2)\<close>, the floating-point formatting of the runtime.
\<close>

record env =
  now :: int
  md5Hex :: "jstring \<Rightarrow> jstring"
  toFixed2 :: "jstring \<Rightarrow> jstring"

text \<open>
  A numeric argument of \<open>setAmount\<close>, as the three things the code observes of it:
  \<open>Number.isFinite(v)\<close>, \<open>v < 0\<close> and \<open>String(v)\<close>.
\<close>

record jsnumber =
  numIsFinite :: bool
  numIsNegative :: bool
  numString :: jstring

datatype amountArg = AmountString jstring | AmountNumber jsnumber

definition newGenerator :: "merchantType \<Rightarrow> generator" where
  "newGenerator mt =
     \<lparr>merchantType = mt, bakongAccountId = None, merchantName = None, merchantId = None,
      acquiringBank = None, accountInformation = None,
      merchantCity = ascii ''Phnom Penh'', currency = KHR, amount = None,
      billNumber = None, mobileNumber = None, storeLabel = None, terminalLabel = None,
      purposeOfTransaction = None, upiAccountInformation = None,
      merchantAlternateLanguagePreference = None, merchantNameAlternateLanguage = None,
      merchantCityAlternateLanguage = None, isStatic = False\<rparr>"

definition setStatic :: "bool \<Rightarrow> generator \<Rightarrow> generator" where
  "setStatic v g = g\<lparr>isStatic := v\<rparr>"

definition setBakongAccountId :: "jstring \<Rightarrow> generator \<Rightarrow> generator" where
  "setBakongAccountId v g = g\<lparr>bakongAccountId := Some v\<rparr>"

definition setMerchantName :: "jstring \<Rightarrow> generator \<Rightarrow> generator" where
  "setMerchantName v g = g\<lparr>merchantName := Some v\<rparr>"

definition setMerchantId :: "jstring \<Rightarrow> generator \<Rightarrow> generator" where
  "setMerchantId v g = g\<lparr>merchantId := Some v\<rparr>"

definition setAcquiringBank :: "jstring \<Rightarrow> generator \<Rightarrow> generator" where
  "setAcquiringBank v g = g\<lparr>acquiringBank := Some v\<rparr>"

definition setAccountInformation :: "jstring \<Rightarrow> generator \<Rightarrow> generator" where
  "setAccountInformation v g = g\<lparr>accountInformation := Some v\<rparr>"

definition setMerchantCity :: "jstring \<Rightarrow> generator \<Rightarrow> generator" where
  "setMerchantCity v g = g\<lparr>merchantCity := v\<rparr>"

definition setCurrency :: "jstring \<Rightarrow> generator \<Rightarrow> error + generator" where
  "setCurrency v g =
     (let up = toUpperCase v
      in if up \<noteq> ascii ''KHR'' \<and> up \<noteq> ascii ''USD'' then Inl InvalidCurrency
         else Inr (g\<lparr>currency := (if up = ascii ''KHR'' then KHR else USD)\<rparr>))"

definition setBillNumber :: "jstring \<Rightarrow> generator \<Rightarrow> generator" where
  "setBillNumber v g = g\<lparr>billNumber := Some v\<rparr>"

definition setMobileNumber :: "jstring \<Rightarrow> generator \<Rightarrow> generator" where
  "setMobileNumber v g = g\<lparr>mobileNumber := Some v\<rparr>"

definition setStoreLabel :: "jstring \<Rightarrow> generator \<Rightarrow> generator" where
  "setStoreLabel v g = g\<lparr>storeLabel := Some v\<rparr>"

definition setTerminalLabel :: "jstring \<Rightarrow> generator \<Rightarrow> generator" where
  "setTerminalLabel v g = g\<lparr>terminalLabel := Some v\<rparr>"

definition setPurposeOfTransaction :: "jstring \<Rightarrow> generator \<Rightarrow> generator" where
  "setPurposeOfTransaction v g = g\<lparr>purposeOfTransaction := Some v\<rparr>"

definition setUpiAccountInformation :: "jstring \<Rightarrow> generator \<Rightarrow> generator" where
  "setUpiAccountInformation v g = g\<lparr>upiAccountInformation := Some v\<rparr>"

definition setMerchantAlternateLanguagePreference :: "jstring \<Rightarrow> generator \<Rightarrow> generator" where
  "setMerchantAlternateLanguagePreference v g =
     g\<lparr>merchantAlternateLanguagePreference := Some v\<rparr>"

definition setMerchantNameAlternateLanguage :: "jstring \<Rightarrow> generator \<Rightarrow> generator" where
  "setMerchantNameAlternateLanguage v g = g\<lparr>merchantNameAlternateLanguage := Some v\<rparr>"

definition setMerchantCityAlternateLanguage :: "jstring \<Rightarrow> generator \<Rightarrow> generator" where
  "setMerchantCityAlternateLanguage v g = g\<lparr>merchantCityAlternateLanguage := Some v\<rparr>"

subsection \<open>Amounts\<close>

text \<open>White space and line terminators of ECMAScript, which \<open>trim\<close> removes.\<close>

definition isSpace :: "16 word \<Rightarrow> bool" where
  "isSpace u =
     (u \<in> {0x09, 0x0A, 0x0B, 0x0C, 0x0D, 0x20, 0xA0, 0x1680, 0x2028, 0x2029, 0x202F,
            0x205F, 0x3000, 0xFEFF}
      \<or> (0x2000 \<le> u \<and> u \<le> 0x200A))"

definition trim :: "jstring \<Rightarrow> jstring" where
  "trim s = rev (dropWhile isSpace (rev (dropWhile isSpace s)))"

text \<open>The regular expression \<open>/^\d+(\.\d+)?$/\<close>.\<close>

definition isNumeric :: "jstring \<Rightarrow> bool" where
  "isNumeric s =
     (takeWhile isDigit s \<noteq> [] \<and>
      (case dropWhile isDigit s of
         [] \<Rightarrow> True
       | c # f \<Rightarrow> c = 0x2E \<and> f \<noteq> [] \<and> list_all isDigit f))"

text \<open>\<open>s.replace(/0+$/, "")\<close> and \<open>s.replace(/\.$/, "")\<close>.\<close>

definition stripZeros :: "jstring \<Rightarrow> jstring" where
  "stripZeros s = rev (dropWhile (\<lambda>u. u = 0x30) (rev s))"

definition stripDot :: "jstring \<Rightarrow> jstring" where
  "stripDot s = (if s \<noteq> [] \<and> last s = 0x2E then butlast s else s)"

definition normalizeAmountString :: "env \<Rightarrow> jstring \<Rightarrow> currency \<Rightarrow> jstring" where
  "normalizeAmountString e s cur =
     (if cur = USD then toFixed2 e s
      else if 0x2E \<notin> set s then s
      else let s' = stripDot (stripZeros s)
           in if s' \<noteq> [] then s' else ascii ''0'')"

definition normalizeAmount :: "env \<Rightarrow> amountArg \<Rightarrow> currency \<Rightarrow> error + jstring" where
  "normalizeAmount e v cur =
     (case v of
        AmountString str \<Rightarrow>
          (let s = trim str
           in if \<not> isNumeric s then Inl AmountNotNumeric
              else Inr (normalizeAmountString e s cur))
      | AmountNumber n \<Rightarrow>
          if \<not> numIsFinite n then Inl AmountNotFinite
          else if numIsNegative n then Inl AmountNegative
          else Inr (normalizeAmountString e (numString n) cur))"

definition setAmount :: "env \<Rightarrow> amountArg \<Rightarrow> generator \<Rightarrow> error + generator" where
  "setAmount e v g =
     (case normalizeAmount e v (currency g) of
        Inl err \<Rightarrow> Inl err
      | Inr a \<Rightarrow> Inr (g\<lparr>amount := Some a\<rparr>))"

subsection \<open>Assembly\<close>

record generateResult =
  qr :: jstring
  timestamp :: "jstring option"
  resultType :: merchantType
  md5 :: jstring

definition bindE :: "error + 'a \<Rightarrow> ('a \<Rightarrow> error + 'b) \<Rightarrow> error + 'b" where
  "bindE m f = (case m of Inl e \<Rightarrow> Inl e | Inr x \<Rightarrow> f x)"

text \<open>A value is truthy when it is neither \<open>undefined\<close> nor the empty string.\<close>

definition truthy :: "jstring option \<Rightarrow> bool" where
  "truthy v = (case v of None \<Rightarrow> False | Some s \<Rightarrow> s \<noteq> [])"

text \<open>\<open>v ? truncUtf8(v, n) : undefined\<close>.\<close>

definition truncOpt :: "jstring option \<Rightarrow> int \<Rightarrow> jstring option" where
  "truncOpt v n =
     (case v of None \<Rightarrow> None | Some s \<Rightarrow> if s = [] then None else Some (truncUtf8 s n))"

text \<open>
  The three statements the assembly is made of: \<open>s += tlv(tag, v)\<close>,
  \<open>if (v) s += tlv(tag, v)\<close>, and \<open>s += tlv(tag, v!)\<close> for a value the type checker is told
  to be defined (\<open>tlv\<close> on \<open>undefined\<close> throws a \<open>TypeError\<close>).
\<close>

definition addTlv :: "jstring \<Rightarrow> jstring \<Rightarrow> jstring \<Rightarrow> error + jstring" where
  "addTlv tag v s = bindE (tlv tag v) (\<lambda>f. Inr (s @ f))"

definition addTlvIf :: "jstring \<Rightarrow> jstring option \<Rightarrow> jstring \<Rightarrow> error + jstring" where
  "addTlvIf tag v s =
     (case v of None \<Rightarrow> Inr s | Some x \<Rightarrow> if x = [] then Inr s else addTlv tag x s)"

definition addTlvAssert :: "jstring \<Rightarrow> jstring option \<Rightarrow> jstring \<Rightarrow> error + jstring" where
  "addTlvAssert tag v s = (case v of None \<Rightarrow> Inl TypeError | Some x \<Rightarrow> addTlv tag x s)"

text \<open>The value of tag 29 (individual) and of tag 30 (merchant).\<close>

definition individualTemplate ::
  "jstring \<Rightarrow> jstring option \<Rightarrow> jstring option \<Rightarrow> error + jstring" where
  "individualTemplate account info bank =
     bindE (addTlv (ascii ''00'') account []) (\<lambda>t.
     bindE (addTlvIf (ascii ''01'') info t) (\<lambda>t.
     addTlvIf (ascii ''02'') bank t))"

definition merchantTemplate ::
  "jstring \<Rightarrow> jstring option \<Rightarrow> jstring option \<Rightarrow> error + jstring" where
  "merchantTemplate account mid bank =
     bindE (addTlv (ascii ''00'') account []) (\<lambda>t.
     bindE (addTlvAssert (ascii ''01'') mid t) (\<lambda>t.
     addTlvAssert (ascii ''02'') bank t))"

text \<open>The value of tag 62 and of tag 64, before the test \<open>if (t)\<close>.\<close>

definition additionalData ::
  "jstring option \<Rightarrow> jstring option \<Rightarrow> jstring option \<Rightarrow> jstring option \<Rightarrow>
   jstring option \<Rightarrow> error + jstring" where
  "additionalData bill mobile store terminal purpose =
     bindE (addTlvIf (ascii ''01'') bill []) (\<lambda>t.
     bindE (addTlvIf (ascii ''02'') mobile t) (\<lambda>t.
     bindE (addTlvIf (ascii ''03'') store t) (\<lambda>t.
     bindE (addTlvIf (ascii ''07'') terminal t) (\<lambda>t.
     addTlvIf (ascii ''08'') purpose t))))"

definition alternateLanguage ::
  "jstring option \<Rightarrow> jstring option \<Rightarrow> jstring option \<Rightarrow> error + jstring" where
  "alternateLanguage langPref nameAlt cityAlt =
     bindE (addTlvIf (ascii ''00'') langPref []) (\<lambda>t.
     bindE (addTlvIf (ascii ''01'') nameAlt t) (\<lambda>t.
     addTlvIf (ascii ''02'') cityAlt t))"

text \<open>
  \<open>generate\<close> after its required-field checks: the truncations, the payload in its fixed
  order, the checksum and the digest.
\<close>

definition assemble :: "env \<Rightarrow> generator \<Rightarrow> error + generateResult" where
  "assemble e g =
     (let account = truncUtf8 (case bakongAccountId g of Some s \<Rightarrow> s | None \<Rightarrow> []) 32;
          name = truncUtf8 (case merchantName g of Some s \<Rightarrow> s | None \<Rightarrow> []) 25;
          city = truncUtf8 (if merchantCity g \<noteq> [] then merchantCity g
                            else ascii ''Phnom Penh'') 15;
          mid = truncOpt (merchantId g) 32;
          bank = truncOpt (acquiringBank g) 32;
          info = truncOpt (accountInformation g) 32;
          bill = truncOpt (billNumber g) 25;
          mobile = truncOpt (mobileNumber g) 25;
          store = truncOpt (storeLabel g) 25;
          terminal = truncOpt (terminalLabel g) 25;
          purpose = truncOpt (purposeOfTransaction g) 25;
          upi = truncOpt (upiAccountInformation g) 31;
          langPref = truncOpt (merchantAlternateLanguagePreference g) 2;
          nameAlt = truncOpt (merchantNameAlternateLanguage g) 25;
          cityAlt = truncOpt (merchantCityAlternateLanguage g) 15;
          poi = (if isStatic g then ascii ''11'' else ascii ''12'');
          currencyNumeric = (if currency g = KHR then ascii ''116'' else ascii ''840'');
          ts = (if isStatic g then None else Some (stringOfInt (now e)))
      in
       bindE (addTlv (ascii ''00'') (ascii ''01'') []) (\<lambda>p.
       bindE (addTlv (ascii ''01'') poi p) (\<lambda>p.
       bindE (addTlvIf (ascii ''15'') upi p) (\<lambda>p.
       bindE (if merchantType g = Individual
              then bindE (individualTemplate account info bank) (\<lambda>t.
                     addTlv (ascii ''29'') t p)
              else bindE (merchantTemplate account mid bank) (\<lambda>t.
                     addTlv (ascii ''30'') t p)) (\<lambda>p.
       bindE (addTlv (ascii ''52'') (ascii ''5999'') p) (\<lambda>p.
       bindE (addTlv (ascii ''53'') currencyNumeric p) (\<lambda>p.
       bindE (case amount g of None \<Rightarrow> Inr p
              | Some a \<Rightarrow> addTlv (ascii ''54'') a p) (\<lambda>p.
       bindE (addTlv (ascii ''58'') (ascii ''KH'') p) (\<lambda>p.
       bindE (addTlv (ascii ''59'') name p) (\<lambda>p.
       bindE (addTlv (ascii ''60'') city p) (\<lambda>p.
       bindE (bindE (additionalData bill mobile store terminal purpose) (\<lambda>t.
                addTlvIf (ascii ''62'') (Some t) p)) (\<lambda>p.
       bindE (bindE (alternateLanguage langPref nameAlt cityAlt) (\<lambda>t.
                addTlvIf (ascii ''64'') (Some t) p)) (\<lambda>p.
       bindE (if truthy ts
              then bindE (tlv (ascii ''00'') (case ts of Some s \<Rightarrow> s | None \<Rightarrow> []))
                     (\<lambda>t99. addTlv (ascii ''99'') t99 p)
              else Inr p) (\<lambda>payload.
       let crcInput = payload @ ascii ''6304'';
           crc = crc16CcittFalseHex crcInput;
           code = crcInput @ crc
       in Inr \<lparr>qr = code, timestamp = ts, resultType = merchantType g,
                md5 = md5Hex e code\<rparr>))))))))))))))"

definition generate :: "env \<Rightarrow> generator \<Rightarrow> error + generateResult" where
  "generate e g =
     (if \<not> truthy (bakongAccountId g) then Inl (Required BakongAccountID)
      else if \<not> truthy (merchantName g) then Inl (Required MerchantName)
      else if merchantType g = Merchant \<and> \<not> truthy (merchantId g)
        then Inl (Required MerchantID)
      else if merchantType g = Merchant \<and> \<not> truthy (acquiringBank g)
        then Inl (Required AcquiringBank)
      else assemble e g)"

section \<open>Verification\<close>

text \<open>
  \<open>s.lastIndexOf(p)\<close>: the largest index at which \<open>p\<close> occurs in \<open>s\<close>, \<open>None\<close> for -1.
  \<open>lastIndexFrom p s i\<close> searches the rest \<open>s\<close> of the string that starts at index \<open>i\<close>.
\<close>

fun lastIndexFrom :: "jstring \<Rightarrow> jstring \<Rightarrow> nat \<Rightarrow> nat option" where
  "lastIndexFrom p [] i = (if p = [] then Some i else None)"
| "lastIndexFrom p (c # s) i =
     (case lastIndexFrom p s (Suc i) of
        Some j \<Rightarrow> Some j
      | None \<Rightarrow> if take (length p) (c # s) = p then Some i else None)"

definition lastIndexOf :: "jstring \<Rightarrow> jstring \<Rightarrow> nat option" where
  "lastIndexOf s p = lastIndexFrom p s 0"

definition verifyCrc :: "jstring \<Rightarrow> bool" where
  "verifyCrc code =
     (case lastIndexOf code (ascii ''6304'') of
        None \<Rightarrow> False
      | Some i \<Rightarrow>
          let provided = sliceStr code (i + 4) (i + 8)
          in if length provided \<noteq> 4 then False
             else let crcInput = sliceStr code 0 (i + 4);
                      expected = crc16CcittFalseHex crcInput
                  in toUpperCase provided = toUpperCase expected)"

definition verify :: "jstring \<Rightarrow> bool" where
  "verify code = verifyCrc code"

section \<open>Top-level decoding\<close>

text \<open>
  The \<open>while\<close> loop of \<open>decodeTlv\<close>, with the index \<open>i\<close> and the object \<open>out\<close> as its
  state. \<open>None\<close> stands for a loop that does not end.
\<close>

partial_function (option) decodeLoop ::
  "jstring \<Rightarrow> nat \<Rightarrow> (jstring \<rightharpoonup> jstring) \<Rightarrow> (jstring \<rightharpoonup> jstring) option" where
  "decodeLoop code i out =
     (if i + 4 \<le> length code then
        (if \<not> twoDigits (sliceStr code (i + 2) (i + 4)) then Some out
         else decodeLoop code (i + 4 + numberOfDigits (sliceStr code (i + 2) (i + 4)))
                (out(sliceStr code i (i + 2) \<mapsto>
                   sliceStr code (i + 4) (i + 4 + numberOfDigits (sliceStr code (i + 2) (i + 4))))))
      else Some out)"

definition decodeTlv :: "jstring \<Rightarrow> (jstring \<rightharpoonup> jstring) option" where
  "decodeTlv code = decodeLoop code 0 Map.empty"

section \<open>Payloads as field sequences\<close>

text \<open>
  The concatenation of the encodings of a sequence of (tag, value) fields, each encoded by
  \<open>tlv\<close>. A payload contains a field when it is such a concatenation and the field is in
  the sequence; a payload has at most one such sequence (\<open>encodeFields_unique\<close>).
\<close>

fun encodeFields :: "(jstring \<times> jstring) list \<Rightarrow> error + jstring" where
  "encodeFields [] = Inr []"
| "encodeFields ((tag, v) # fs) =
     bindE (tlv tag v) (\<lambda>f. bindE (encodeFields fs) (\<lambda>r. Inr (f @ r)))"

section \<open>Strings of complete fields, as the decoder reads them\<close>

text \<open>
  The decoder counts code units. A complete field is a two-unit tag, a two-digit length
  and a value of exactly that many code units; \<open>flatten\<close> writes a sequence of such
  fields one after the other and \<open>recordFields\<close> stores them in an object in that order.
\<close>

definition completeField :: "jstring \<times> jstring \<times> jstring \<Rightarrow> bool" where
  "completeField f =
     (case f of (tag, len, v) \<Rightarrow>
        length tag = 2 \<and> twoDigits len \<and> numberOfDigits len = length v)"

definition flatten :: "(jstring \<times> jstring \<times> jstring) list \<Rightarrow> jstring" where
  "flatten fs = concat (map (\<lambda>(tag, len, v). tag @ len @ v) fs)"

definition recordFields ::
  "(jstring \<rightharpoonup> jstring) \<Rightarrow> (jstring \<times> jstring \<times> jstring) list \<Rightarrow> (jstring \<rightharpoonup> jstring)" where
  "recordFields out fs = foldl (\<lambda>m (tag, len, v). m(tag \<mapsto> v)) out fs"

section \<open>Vocabulary of the statements\<close>

text \<open>Strings of ASCII characters: every code unit is one UTF-8 byte.\<close>

definition asciiOnly :: "jstring \<Rightarrow> bool" where
  "asciiOnly s = list_all (\<lambda>u. u < 0x80) s"

text \<open>
  What \<open>tlv\<close> returns when it does not throw, and a sequence of fields written one after
  the other.
\<close>

definition encoded :: "jstring \<Rightarrow> jstring \<Rightarrow> jstring" where
  "encoded tag v = tag @ padStart 2 0x30 (decimal (utf8ByteLength v)) @ v"

definition encodedFields :: "(jstring \<times> jstring) list \<Rightarrow> jstring" where
  "encodedFields fs = concat (map (\<lambda>(tag, v). encoded tag v) fs)"

text \<open>
  The payload of a configuration as a sequence of fields, for comparison with what
  \<open>assemble\<close> builds: the field an optional value contributes (none when the value is
  \<open>undefined\<close> or empty), the sub-fields of the three templates, and the top-level fields
  in their order: those before the amount, the amount, those after it, and the timestamp
  template.
\<close>

definition optField :: "jstring \<Rightarrow> jstring option \<Rightarrow> (jstring \<times> jstring) list" where
  "optField tag v = (case v of None \<Rightarrow> [] | Some x \<Rightarrow> if x = [] then [] else [(tag, x)])"

definition valueOf :: "jstring option \<Rightarrow> jstring" where
  "valueOf v = (case v of Some s \<Rightarrow> s | None \<Rightarrow> [])"

definition identityTag :: "generator \<Rightarrow> jstring" where
  "identityTag g = (if merchantType g = Individual then ascii ''29'' else ascii ''30'')"

definition identityFields :: "generator \<Rightarrow> (jstring \<times> jstring) list" where
  "identityFields g =
     (if merchantType g = Individual then
        (ascii ''00'', truncUtf8 (valueOf (bakongAccountId g)) 32) #
        optField (ascii ''01'') (truncOpt (accountInformation g) 32) @
        optField (ascii ''02'') (truncOpt (acquiringBank g) 32)
      else
        [(ascii ''00'', truncUtf8 (valueOf (bakongAccountId g)) 32),
         (ascii ''01'', truncUtf8 (valueOf (merchantId g)) 32),
         (ascii ''02'', truncUtf8 (valueOf (acquiringBank g)) 32)])"

definition additionalFields :: "generator \<Rightarrow> (jstring \<times> jstring) list" where
  "additionalFields g =
     optField (ascii ''01'') (truncOpt (billNumber g) 25) @
     optField (ascii ''02'') (truncOpt (mobileNumber g) 25) @
     optField (ascii ''03'') (truncOpt (storeLabel g) 25) @
     optField (ascii ''07'') (truncOpt (terminalLabel g) 25) @
     optField (ascii ''08'') (truncOpt (purposeOfTransaction g) 25)"

definition alternateFields :: "generator \<Rightarrow> (jstring \<times> jstring) list" where
  "alternateFields g =
     optField (ascii ''00'') (truncOpt (merchantAlternateLanguagePreference g) 2) @
     optField (ascii ''01'') (truncOpt (merchantNameAlternateLanguage g) 25) @
     optField (ascii ''02'') (truncOpt (merchantCityAlternateLanguage g) 15)"

definition headFields :: "generator \<Rightarrow> (jstring \<times> jstring) list" where
  "headFields g =
     [(ascii ''00'', ascii ''01''),
      (ascii ''01'', if isStatic g then ascii ''11'' else ascii ''12'')] @
     optField (ascii ''15'') (truncOpt (upiAccountInformation g) 31) @
     [(identityTag g, encodedFields (identityFields g)),
      (ascii ''52'', ascii ''5999''),
      (ascii ''53'', if currency g = KHR then ascii ''116'' else ascii ''840'')]"

definition tailFields :: "generator \<Rightarrow> (jstring \<times> jstring) list" where
  "tailFields g =
     [(ascii ''58'', ascii ''KH''),
      (ascii ''59'', truncUtf8 (valueOf (merchantName g)) 25),
      (ascii ''60'', truncUtf8 (if merchantCity g \<noteq> [] then merchantCity g
                                else ascii ''Phnom Penh'') 15)] @
     optField (ascii ''62'') (Some (encodedFields (additionalFields g))) @
     optField (ascii ''64'') (Some (encodedFields (alternateFields g)))"

definition bodyFields :: "generator \<Rightarrow> (jstring \<times> jstring) list" where
  "bodyFields g =
     headFields g @
     (case amount g of None \<Rightarrow> [] | Some a \<Rightarrow> [(ascii ''54'', a)]) @
     tailFields g"

definition topFields :: "env \<Rightarrow> generator \<Rightarrow> (jstring \<times> jstring) list" where
  "topFields e g =
     bodyFields g @
     (if isStatic g then []
      else [(ascii ''99'', encoded (ascii ''00'') (stringOfInt (now e)))])"

text \<open>
  The text \<open>setAmount\<close> normalises: the trimmed string, or \<open>String(v)\<close> of a number. A
  text has exactly two decimal places when it is digits, a point and two digits.
\<close>

definition amountText :: "amountArg \<Rightarrow> jstring" where
  "amountText v = (case v of AmountString s \<Rightarrow> trim s | AmountNumber n \<Rightarrow> numString n)"

definition twoDecimalPlaces :: "jstring \<Rightarrow> bool" where
  "twoDecimalPlaces s =
     (takeWhile isDigit s \<noteq> [] \<and>
      (case dropWhile isDigit s of
         [] \<Rightarrow> False
       | c # f \<Rightarrow> c = 0x2E \<and> length f = 2 \<and> list_all isDigit f))"

text \<open>
  A (tag, value) field as the decoder reads its encoding: the tag, the two length
  characters that \<open>tlv\<close> writes, and the value; and the object that results from storing
  a sequence of fields in order, a later field replacing an earlier one of the same tag.
\<close>

definition asTriple :: "jstring \<times> jstring \<Rightarrow> jstring \<times> jstring \<times> jstring" where
  "asTriple f = (fst f, padStart 2 0x30 (decimal (utf8ByteLength (snd f))), snd f)"

definition storeFields ::
  "(jstring \<rightharpoonup> jstring) \<Rightarrow> (jstring \<times> jstring) list \<Rightarrow> (jstring \<rightharpoonup> jstring)" where
  "storeFields out fs = foldl (\<lambda>m (tag, v). m(tag \<mapsto> v)) out fs"

section \<open>Example configurations\<close>

text \<open>
  The surroundings of the examples (the digest and the number formatting are not used by
  what the examples show), the configurations they assemble and the results.
\<close>

definition exampleEnv :: env where
  "exampleEnv = \<lparr>now = 1700000000000, md5Hex = (\<lambda>s. []), toFixed2 = (\<lambda>s. s)\<rparr>"

definition johnSmith :: generator where
  "johnSmith =
     setMerchantName (ascii ''John Smith'')
       (setBakongAccountId (ascii ''john_smith@devb'') (newGenerator Individual))"

definition staticJohn :: generator where
  "staticJohn = setStatic True johnSmith"

definition amount148572 :: generator where
  "amount148572 = staticJohn\<lparr>amount := Some (ascii ''148572'')\<rparr>"

definition amount1000 :: generator where
  "amount1000 = staticJohn\<lparr>amount := Some (ascii ''1000'')\<rparr>"

definition amountThenUsd :: generator where
  "amountThenUsd = staticJohn\<lparr>amount := Some (ascii ''1.5''), currency := USD\<rparr>"

definition longIdentity :: generator where
  "longIdentity =
     setAcquiringBank (ascii ''Advanced Bank of Asia Limited KH'')
       (setAccountInformation (ascii ''00000000000000000000000123456789'')
         (setMerchantName (ascii ''John Smith'')
           (setBakongAccountId (ascii ''john_smith_long_account_id@devbk'')
             (newGenerator Individual))))"

definition manyLabels :: generator where
  "manyLabels =
     setPurposeOfTransaction (ascii ''purpose-00000000000000001'')
       (setTerminalLabel (ascii ''terminal-0000000000000001'')
         (setStoreLabel (ascii ''store-0000000000000000001'')
           (setMobileNumber (ascii ''0000000000000000085512345'')
             (setBillNumber (ascii ''bill-00000000000000000001'') staticJohn))))"

definition merchantNoId :: generator where
  "merchantNoId =
     setAcquiringBank (ascii ''Dev Bank'')
       (setMerchantName (ascii ''Dev Store'')
         (setBakongAccountId (ascii ''dev_merchant@devb'') (newGenerator Merchant)))"

definition merchantNoBank :: generator where
  "merchantNoBank =
     setMerchantId (ascii ''M-0001'')
       (setMerchantName (ascii ''Dev Store'')
         (setBakongAccountId (ascii ''dev_merchant@devb'') (newGenerator Merchant)))"

definition staticResult :: generateResult where
  "staticResult =
     \<lparr>qr = ascii ''00020101021129190015john_smith@devb5204599953031165802KH5910John Smith6010Phnom Penh63046BFA'',
      timestamp = None, resultType = Individual, md5 = []\<rparr>"

definition dynamicResult :: generateResult where
  "dynamicResult =
     \<lparr>qr = ascii ''00020101021229190015john_smith@devb5204599953031165802KH5910John Smith6010Phnom Penh99170013170000000000063042FDF'',
      timestamp = Some (ascii ''1700000000000''), resultType = Individual, md5 = []\<rparr>"

definition amount148572Result :: generateResult where
  "amount148572Result =
     \<lparr>qr = ascii ''00020101021129190015john_smith@devb52045999530311654061485725802KH5910John Smith6010Phnom Penh63046304'',
      timestamp = None, resultType = Individual, md5 = []\<rparr>"

definition amountThenUsdResult :: generateResult where
  "amountThenUsdResult =
     \<lparr>qr = ascii ''00020101021129190015john_smith@devb52045999530384054031.55802KH5910John Smith6010Phnom Penh6304737E'',
      timestamp = None, resultType = Individual, md5 = []\<rparr>"

definition amount1000Result :: generateResult where
  "amount1000Result =
     \<lparr>qr = ascii ''00020101021129190015john_smith@devb520459995303116540410005802KH5910John Smith6010Phnom Penh63048B7E'',
      timestamp = None, resultType = Individual, md5 = []\<rparr>"

section \<open>Truncation\<close>

lemma truncLoop_fits:
  "out = [] \<or> int (utf8ByteLength out) \<le> n \<Longrightarrow>
   truncLoop chs n out = [] \<or> int (utf8ByteLength (truncLoop chs n out)) \<le> n"
  by (induction chs arbitrary: out) (auto simp: Let_def)

lemma truncUtf8_fits:
  "truncUtf8 s n = [] \<or> int (utf8ByteLength (truncUtf8 s n)) \<le> n"
  using truncLoop_fits [of "[]" n "codePoints s"] by (auto simp: truncUtf8_def)

text \<open>
  C9. Truncation is idempotent: for every string \<open>s\<close> and every byte budget \<open>n\<close>
  (negative budgets included), \<open>truncUtf8 (truncUtf8 s n) n = truncUtf8 s n\<close>.
\<close>

theorem truncUtf8_idempotent: "truncUtf8 (truncUtf8 s n) n = truncUtf8 s n"
proof -
  consider "truncUtf8 s n = []" | "int (utf8ByteLength (truncUtf8 s n)) \<le> n"
    using truncUtf8_fits by blast
  then show ?thesis
  proof cases
    case 1
    then show ?thesis by (simp add: truncUtf8_def)
  next
    case 2
    then show ?thesis by (simp add: truncUtf8_def [of "truncUtf8 s n"])
  qed
qed

section \<open>Strings and their UTF-8 lengths\<close>

lemma ascii_simps: "ascii [] = []" "ascii (c # cs) = of_nat (of_char c) # ascii cs"
  by (simp_all add: ascii_def)

lemma ascii_unit: "u < 0x80 \<Longrightarrow> \<not> isHigh u \<and> \<not> isLow u \<and> utf8Unit u = [ucast u]"
  by (auto simp: isHigh_def isLow_def utf8Unit_def word_less_nat_alt word_le_nat_alt)

lemma utf8Encode_ascii: "asciiOnly s \<Longrightarrow> utf8Encode s = map ucast s"
  by (induction s) (simp_all add: asciiOnly_def ascii_unit)

lemma utf8ByteLength_ascii: "asciiOnly s \<Longrightarrow> utf8ByteLength s = length s"
  by (simp add: utf8ByteLength_def utf8Encode_ascii)

lemma utf8ByteLength_Nil: "utf8ByteLength [] = 0"
  by (simp add: utf8ByteLength_def)

lemma length_utf8Pair: "length (utf8Pair u v) = 4"
  by (simp add: utf8Pair_def Let_def)

lemma not_high_and_low: "isLow v \<Longrightarrow> \<not> isHigh v"
  by (auto simp: isHigh_def isLow_def word_less_nat_alt word_le_nat_alt)

lemma utf8ByteLength_low: "isLow v \<Longrightarrow> utf8ByteLength (v # r) = 3 + utf8ByteLength r"
  by (simp add: utf8ByteLength_def not_high_and_low utf8Replacement_def)

lemma utf8ByteLength_append_le:
  "utf8ByteLength (a @ b) \<le> utf8ByteLength a + utf8ByteLength b"
proof (induction a rule: utf8Encode.induct)
  case 1
  then show ?case by (simp add: utf8ByteLength_def)
next
  case (2 u r)
  show ?case
  proof (cases "isHigh u")
    case high: True
    show ?thesis
    proof (cases r)
      case Nil
      show ?thesis
      proof (cases b)
        case Nil
        then show ?thesis using \<open>r = []\<close> by (simp add: utf8ByteLength_def)
      next
        case (Cons v b')
        show ?thesis
        proof (cases "isLow v")
          case True
          then show ?thesis
            using high \<open>r = []\<close> Cons utf8ByteLength_low [of v b']
            by (simp add: utf8ByteLength_def utf8Replacement_def length_utf8Pair)
        next
          case False
          then show ?thesis
            using high \<open>r = []\<close> Cons by (simp add: utf8ByteLength_def)
        qed
      qed
    next
      case (Cons v r')
      show ?thesis
      proof (cases "isLow v")
        case True
        with 2(1) [OF high Cons True] high Cons show ?thesis
          by (simp add: utf8ByteLength_def)
      next
        case False
        with 2(2) [OF high Cons False] high Cons show ?thesis
          by (simp add: utf8ByteLength_def)
      qed
    qed
  next
    case nothigh: False
    show ?thesis
    proof (cases "isLow u")
      case True
      with 2(3) [OF nothigh True] nothigh show ?thesis
        by (simp add: utf8ByteLength_def)
    next
      case False
      with 2(4) [OF nothigh False] nothigh show ?thesis
        by (simp add: utf8ByteLength_def)
    qed
  qed
qed

lemma utf8ByteLength_ascii_append:
  "asciiOnly a \<Longrightarrow> utf8ByteLength (a @ b) = length a + utf8ByteLength b"
  by (induction a) (simp_all add: asciiOnly_def utf8ByteLength_def ascii_unit)

lemma truncUtf8_le: "0 \<le> n \<Longrightarrow> int (utf8ByteLength (truncUtf8 s n)) \<le> n"
  using truncUtf8_fits [of s n] by (auto simp: utf8ByteLength_Nil)

subsection \<open>Decimal digits\<close>

lemma digitChar_ascii: "d < 10 \<Longrightarrow> digitChar d < 0x80 \<and> isDigit (digitChar d)"
proof -
  assume "d < 10"
  then have "d \<in> {0, 1, 2, 3, 4, 5, 6, 7, 8, 9}" by auto
  then show ?thesis by (auto simp: digitChar_def isDigit_def)
qed

lemma decimal_digits: "list_all isDigit (decimal n)"
proof (induction n rule: decimal.induct)
  case (1 n)
  show ?case
  proof (cases "n < 10")
    case True
    then show ?thesis by (subst decimal.simps) (simp add: digitChar_ascii)
  next
    case False
    with 1 show ?thesis by (subst decimal.simps) (simp add: digitChar_ascii)
  qed
qed

lemma isDigit_ascii: "isDigit u \<Longrightarrow> u < 0x80"
  by (simp add: isDigit_def word_less_nat_alt word_le_nat_alt)

lemma digits_asciiOnly: "list_all isDigit s \<Longrightarrow> asciiOnly s"
  by (induction s) (simp_all add: asciiOnly_def isDigit_ascii)

lemma length_decimal: "0 < k \<Longrightarrow> n < 10 ^ k \<Longrightarrow> length (decimal n) \<le> k"
proof (induction k arbitrary: n)
  case 0
  then show ?case by simp
next
  case (Suc k)
  show ?case
  proof (cases "n < 10")
    case True
    then show ?thesis by (subst decimal.simps) simp
  next
    case False
    with Suc.prems have k: "0 < k" by (cases k) simp_all
    from Suc.prems have "n div 10 < 10 ^ k" by (simp add: less_mult_imp_div_less mult.commute)
    from Suc.IH [OF k this] False show ?thesis by (subst decimal.simps) simp
  qed
qed

lemma padStart_decimal:
  "n \<le> 99 \<Longrightarrow> length (padStart 2 0x30 (decimal n)) = 2 \<and>
                 list_all isDigit (padStart 2 0x30 (decimal n))"
proof -
  assume n: "n \<le> 99"
  show ?thesis
  proof (cases "n < 10")
    case True
    have z: "isDigit 0x30" by (simp add: isDigit_def)
    from True show ?thesis
      by (subst (1 2) decimal.simps) (simp add: padStart_def digitChar_ascii z)
  next
    case False
    with n have d: "n div 10 < 10" by simp
    have "decimal n = decimal (n div 10) @ [digitChar (n mod 10)]"
      using False by (subst decimal.simps) simp
    also have "decimal (n div 10) = [digitChar (n div 10)]"
      using d by (subst decimal.simps) simp
    finally show ?thesis using d by (simp add: padStart_def digitChar_ascii)
  qed
qed

lemma stringOfInt_ascii: "asciiOnly (stringOfInt i)"
  using digits_asciiOnly [OF decimal_digits]
  by (simp add: stringOfInt_def asciiOnly_def)

lemma length_stringOfInt:
  assumes "\<bar>i\<bar> \<le> 8640000000000000"
  shows "length (stringOfInt i) \<le> 17"
proof -
  have "nat \<bar>i\<bar> < 10 ^ 16" using assms by simp
  from length_decimal [OF _ this] have "length (decimal (nat \<bar>i\<bar>)) \<le> 16" by simp
  then show ?thesis by (auto simp: stringOfInt_def abs_if split: if_splits)
qed

section \<open>What truncation returns\<close>

text \<open>
  For a budget that is not negative the result of \<open>truncUtf8\<close> has at most that many
  UTF-8 bytes.
\<close>

theorem truncUtf8_within_budget: "0 \<le> n \<Longrightarrow> int (utf8ByteLength (truncUtf8 s n)) \<le> n"
  by (rule truncUtf8_le)

theorem truncUtf8_within_budget_witness:
  "(0::int) \<le> 5 \<and> utf8ByteLength [0xE9, 0xE9, 0xE9] = 6 \<and>
   truncUtf8 [0xE9, 0xE9, 0xE9] 5 = [0xE9, 0xE9] \<and>
   int (utf8ByteLength (truncUtf8 [0xE9, 0xE9, 0xE9] 5)) \<le> 5"
proof -
  have u: "utf8ByteLength [0xE9, 0xE9, 0xE9] = 6" "utf8ByteLength [0xE9, 0xE9] = 4"
    "utf8ByteLength [0xE9] = 2"
    by (simp_all add: utf8ByteLength_def isHigh_def isLow_def utf8Unit_def)
  have t: "truncUtf8 [0xE9, 0xE9, 0xE9] 5 = [0xE9, 0xE9]"
    by (simp add: truncUtf8_def u isHigh_def isLow_def Let_def)
  from truncUtf8_within_budget [of 5 "[0xE9, 0xE9, 0xE9]"] u t show ?thesis by simp
qed

lemma concat_codePoints: "concat (codePoints s) = s"
  by (induction s rule: codePoints.induct) simp_all

lemma truncLoop_prefix: "\<exists>j. truncLoop chs n out = out @ concat (take j chs)"
proof (induction chs arbitrary: out)
  case Nil
  then show ?case by simp
next
  case (Cons ch chs)
  show ?case
  proof (cases "int (utf8ByteLength (out @ ch)) > n")
    case True
    then have "truncLoop (ch # chs) n out = out @ concat (take 0 (ch # chs))"
      by (simp add: Let_def)
    then show ?thesis by blast
  next
    case False
    from Cons.IH [of "out @ ch"] obtain j where
      "truncLoop chs n (out @ ch) = (out @ ch) @ concat (take j chs)" by blast
    with False have "truncLoop (ch # chs) n out = out @ concat (take (Suc j) (ch # chs))"
      by (simp add: Let_def)
    then show ?thesis by blast
  qed
qed

text \<open>
  The result of \<open>truncUtf8\<close> is made of the first code points of its argument: no
  surrogate pair is cut in two.
\<close>

theorem truncUtf8_whole_code_points: "\<exists>j. truncUtf8 s n = concat (take j (codePoints s))"
proof (cases "int (utf8ByteLength s) \<le> n")
  case True
  then have "truncUtf8 s n = concat (take (length (codePoints s)) (codePoints s))"
    by (simp add: truncUtf8_def concat_codePoints)
  then show ?thesis by blast
next
  case False
  with truncLoop_prefix [of "codePoints s" n "[]"] show ?thesis
    by (simp add: truncUtf8_def)
qed

section \<open>The checksum engine\<close>

text \<open>
  C5. The checksum of the ASCII string \<open>123456789\<close> is the published check value of
  CRC-16/CCITT-FALSE, \<open>29B1\<close>, as four upper-case hexadecimal digits.
\<close>

theorem crc16_check_value: "crc16CcittFalseHex (ascii ''123456789'') = ascii ''29B1''"
proof -
  have bytes: "utf8Encode (ascii ''123456789'') = [49, 50, 51, 52, 53, 54, 55, 56, 57]"
    by (simp add: ascii_simps isHigh_def isLow_def utf8Unit_def)
  have register: "crcBytes [49, 50, 51, 52, 53, 54, 55, 56, 57] 0xFFFF = 0x29B1"
    by code_simp
  have hex: "padStart 4 0x30 (toUpperCase (toString16 (nat 0x29B1))) = ascii ''29B1''"
    by (simp add: padStart_def toUpperCase_def upperUnit_def digitChar_def ascii_simps
        toString16.simps)
  show ?thesis
    by (simp only: crc16CcittFalseHex_def bytes register hex)
qed

section \<open>The decoder\<close>

lemma decodeLoop_stop: "\<not> i + 4 \<le> length code \<Longrightarrow> decodeLoop code i out = Some out"
  by (subst decodeLoop.simps) simp

lemma decodeLoop_step:
  "i + 4 \<le> length code \<Longrightarrow> twoDigits (sliceStr code (i + 2) (i + 4)) \<Longrightarrow>
   decodeLoop code i out =
   decodeLoop code (i + 4 + numberOfDigits (sliceStr code (i + 2) (i + 4)))
     (out(sliceStr code i (i + 2) \<mapsto>
        sliceStr code (i + 4) (i + 4 + numberOfDigits (sliceStr code (i + 2) (i + 4)))))"
  by (subst decodeLoop.simps) simp

lemma decodeLoop_returns: "\<exists>m. decodeLoop code i out = Some m"
proof (induction "length code - i" arbitrary: i out rule: less_induct)
  case less
  show ?case
  proof (cases "i + 4 \<le> length code \<and> twoDigits (sliceStr code (i + 2) (i + 4))")
    case True
    let ?j = "i + 4 + numberOfDigits (sliceStr code (i + 2) (i + 4))"
    from True have "length code - ?j < length code - i" by linarith
    from less [OF this] show ?thesis
      using True by (subst decodeLoop.simps) simp
  next
    case False
    then show ?thesis by (subst decodeLoop.simps) auto
  qed
qed

lemma twoDigits_length: "twoDigits s \<Longrightarrow> length s = 2"
  by (simp add: twoDigits_def)

lemma decodeLoop_field:
  assumes "length tag = 2" "twoDigits len" "numberOfDigits len = length v"
  shows "decodeLoop (pre @ tag @ len @ v @ suf) (length pre) out =
         decodeLoop (pre @ tag @ len @ v @ suf) (length pre + 4 + length v) (out(tag \<mapsto> v))"
proof -
  let ?code = "pre @ tag @ len @ v @ suf"
  have l: "length len = 2" using assms(2) by (rule twoDigits_length)
  have s1: "sliceStr ?code (length pre + 2) (length pre + 4) = len"
    using assms(1) l by (simp add: sliceStr_def)
  have s0: "sliceStr ?code (length pre) (length pre + 2) = tag"
    using assms(1) by (simp add: sliceStr_def)
  have s2: "sliceStr ?code (length pre + 4) (length pre + 4 + numberOfDigits len) = v"
    using assms(1,3) l by (simp add: sliceStr_def)
  have "length pre + 4 \<le> length ?code" using assms(1) l by simp
  from decodeLoop_step [OF this, of out, unfolded s1 s0 s2, OF assms(2)]
  show ?thesis unfolding assms(3) .
qed

lemma decodeLoop_fields:
  "list_all completeField fs \<Longrightarrow>
   decodeLoop (pre @ flatten fs @ suf) (length pre) out =
   decodeLoop (pre @ flatten fs @ suf) (length pre + length (flatten fs)) (recordFields out fs)"
proof (induction fs arbitrary: pre out)
  case Nil
  then show ?case by (simp add: flatten_def recordFields_def)
next
  case (Cons f fs)
  obtain tag len v where f: "f = (tag, len, v)" by (cases f)
  from Cons.prems have cf: "completeField f" and r: "list_all completeField fs"
    by simp_all
  from cf f have c: "length tag = 2" "twoDigits len" "numberOfDigits len = length v"
    by (simp_all add: completeField_def)
  have l: "length len = 2" using c(2) by (rule twoDigits_length)
  have e: "pre @ flatten (f # fs) @ suf = pre @ tag @ len @ v @ flatten fs @ suf"
    by (simp add: flatten_def f)
  have e': "pre @ flatten (f # fs) @ suf = (pre @ tag @ len @ v) @ flatten fs @ suf"
    by (simp add: flatten_def f)
  have n: "length (pre @ tag @ len @ v) = length pre + 4 + length v"
    using c(1) l by simp
  have m: "length (pre @ tag @ len @ v) + length (flatten fs) =
           length pre + length (flatten (f # fs))"
    using c(1) l by (simp add: flatten_def f)
  have u: "recordFields (out(tag \<mapsto> v)) fs = recordFields out (f # fs)"
    by (simp add: recordFields_def f)
  have "decodeLoop (pre @ flatten (f # fs) @ suf) (length pre) out =
        decodeLoop (pre @ flatten (f # fs) @ suf) (length pre + 4 + length v) (out(tag \<mapsto> v))"
    unfolding e by (rule decodeLoop_field [OF c])
  also have "\<dots> = decodeLoop ((pre @ tag @ len @ v) @ flatten fs @ suf)
                     (length (pre @ tag @ len @ v)) (out(tag \<mapsto> v))"
    unfolding e' n ..
  also have "\<dots> = decodeLoop ((pre @ tag @ len @ v) @ flatten fs @ suf)
                     (length (pre @ tag @ len @ v) + length (flatten fs))
                     (recordFields (out(tag \<mapsto> v)) fs)"
    by (rule Cons.IH [OF r])
  also have "\<dots> = decodeLoop (pre @ flatten (f # fs) @ suf)
                     (length pre + length (flatten (f # fs))) (recordFields out (f # fs))"
    unfolding e' m u ..
  finally show ?case .
qed

lemma decodeLoop_short_final:
  assumes "length tag = 2" "twoDigits len" "length rest < numberOfDigits len"
  shows "decodeLoop (pre @ tag @ len @ rest) (length pre) out = Some (out(tag \<mapsto> rest))"
proof -
  let ?code = "pre @ tag @ len @ rest"
  have l: "length len = 2" using assms(2) by (rule twoDigits_length)
  have s1: "sliceStr ?code (length pre + 2) (length pre + 4) = len"
    using assms(1) l by (simp add: sliceStr_def)
  have s0: "sliceStr ?code (length pre) (length pre + 2) = tag"
    using assms(1) by (simp add: sliceStr_def)
  have s2: "sliceStr ?code (length pre + 4) (length pre + 4 + numberOfDigits len) = rest"
    using assms(1,3) l by (simp add: sliceStr_def)
  have "length pre + 4 \<le> length ?code" using assms(1) l by simp
  from decodeLoop_step [OF this, of out, unfolded s1 s0 s2, OF assms(2)]
  have "decodeLoop ?code (length pre) out =
        decodeLoop ?code (length pre + 4 + numberOfDigits len) (out(tag \<mapsto> rest))" .
  also have "\<dots> = Some (out(tag \<mapsto> rest))"
    using assms(1,3) l by (intro decodeLoop_stop) simp
  finally show ?thesis .
qed

lemma decodeLoop_fields_short_final:
  assumes "list_all completeField fs"
    and "length tag = 2" and "twoDigits len" and "length rest < numberOfDigits len"
  shows "decodeLoop (flatten fs @ tag @ len @ rest) 0 Map.empty =
         Some ((recordFields Map.empty fs)(tag \<mapsto> rest))"
proof -
  let ?code = "flatten fs @ tag @ len @ rest"
  have "decodeLoop ([] @ flatten fs @ tag @ len @ rest) (length ([]::jstring)) Map.empty =
        decodeLoop ([] @ flatten fs @ tag @ len @ rest)
          (length ([]::jstring) + length (flatten fs)) (recordFields Map.empty fs)"
    by (rule decodeLoop_fields [OF assms(1)])
  then have "decodeLoop ?code 0 Map.empty =
             decodeLoop ?code (length (flatten fs)) (recordFields Map.empty fs)"
    by simp
  also have "\<dots> = Some ((recordFields Map.empty fs)(tag \<mapsto> rest))"
    by (rule decodeLoop_short_final [OF assms(2-4)])
  finally show ?thesis .
qed

lemma decodeLoop_one_field:
  assumes "length tag = 2" "twoDigits len" "numberOfDigits len = length v"
  shows "decodeLoop (tag @ len @ v) 0 Map.empty = Some [tag \<mapsto> v]"
proof -
  have l: "length len = 2" using assms(2) by (rule twoDigits_length)
  have "decodeLoop ([] @ tag @ len @ v @ []) (length ([]::jstring)) Map.empty =
        decodeLoop ([] @ tag @ len @ v @ []) (length ([]::jstring) + 4 + length v)
          [tag \<mapsto> v]"
    by (rule decodeLoop_field [OF assms])
  then have "decodeLoop (tag @ len @ v) 0 Map.empty =
             decodeLoop (tag @ len @ v) (4 + length v) [tag \<mapsto> v]"
    by simp
  also have "\<dots> = Some [tag \<mapsto> v]"
    using assms(1) l by (intro decodeLoop_stop) simp
  finally show ?thesis .
qed

lemma decodeLoop_to_remainder:
  assumes "list_all completeField fs"
  shows "decodeLoop (flatten fs @ rest) 0 Map.empty =
         decodeLoop (flatten fs @ rest) (length (flatten fs)) (recordFields Map.empty fs)"
proof -
  have "decodeLoop ([] @ flatten fs @ rest) (length ([]::jstring)) Map.empty =
        decodeLoop ([] @ flatten fs @ rest)
          (length ([]::jstring) + length (flatten fs)) (recordFields Map.empty fs)"
    by (rule decodeLoop_fields [OF assms])
  then show ?thesis by simp
qed

lemma decodeLoop_bad_length:
  assumes "length tag = 2" "length len = 2" "\<not> twoDigits len"
  shows "decodeLoop (pre @ tag @ len @ rest) (length pre) out = Some out"
proof -
  have s: "sliceStr (pre @ tag @ len @ rest) (length pre + 2) (length pre + 4) = len"
    using assms(1,2) by (simp add: sliceStr_def)
  have "\<not> twoDigits (sliceStr (pre @ tag @ len @ rest) (length pre + 2) (length pre + 4))"
    unfolding s by (rule assms(3))
  then show ?thesis
    by (subst decodeLoop.simps) (simp only: if_True if_False not_not simp_thms split: if_splits)
qed

text \<open>
  C3, as the code has it. After a sequence of complete fields, what the decoder does with
  the rest of the input: when the rest has a complete tag and a two-digit length that
  exceeds the number of code units left, the decoder does not stop before it, and the tag
  is stored with the code units that are left as its (shortened, possibly empty) value;
  when the rest has fewer than four code units, or its two length characters are not two
  digits, the decoder stops and the result has the complete fields only.
\<close>

theorem decodeTlv_final_field:
  assumes "list_all completeField fs"
  shows "(length tag = 2 \<and> twoDigits len \<and> length rest < numberOfDigits len \<longrightarrow>
            decodeTlv (flatten fs @ tag @ len @ rest) =
              Some ((recordFields Map.empty fs)(tag \<mapsto> rest))) \<and>
         (length rest < 4 \<longrightarrow>
            decodeTlv (flatten fs @ rest) = Some (recordFields Map.empty fs)) \<and>
         (length tag = 2 \<and> length len = 2 \<and> \<not> twoDigits len \<longrightarrow>
            decodeTlv (flatten fs @ tag @ len @ rest) = Some (recordFields Map.empty fs))"
proof (intro conjI impI)
  assume "length tag = 2 \<and> twoDigits len \<and> length rest < numberOfDigits len"
  then show "decodeTlv (flatten fs @ tag @ len @ rest) =
             Some ((recordFields Map.empty fs)(tag \<mapsto> rest))"
    unfolding decodeTlv_def using decodeLoop_fields_short_final [OF assms] by blast
next
  assume "length rest < 4"
  then have "decodeLoop (flatten fs @ rest) (length (flatten fs)) (recordFields Map.empty fs) =
             Some (recordFields Map.empty fs)"
    by (intro decodeLoop_stop) simp
  then show "decodeTlv (flatten fs @ rest) = Some (recordFields Map.empty fs)"
    unfolding decodeTlv_def decodeLoop_to_remainder [OF assms] .
next
  assume h: "length tag = 2 \<and> length len = 2 \<and> \<not> twoDigits len"
  then have "decodeLoop (flatten fs @ tag @ len @ rest) (length (flatten fs))
               (recordFields Map.empty fs) = Some (recordFields Map.empty fs)"
    by (intro decodeLoop_bad_length) simp_all
  then show "decodeTlv (flatten fs @ tag @ len @ rest) = Some (recordFields Map.empty fs)"
    unfolding decodeTlv_def decodeLoop_to_remainder [OF assms] .
qed

theorem decodeTlv_final_field_witness:
  "list_all completeField [(ascii ''00'', ascii ''02'', ascii ''01'')] \<and>
   length (ascii ''59'') = 2 \<and> twoDigits (ascii ''05'') \<and>
   length (ascii ''ab'') < numberOfDigits (ascii ''05'') \<and>
   decodeTlv (ascii ''0002015905ab'') =
     Some [ascii ''00'' \<mapsto> ascii ''01'', ascii ''59'' \<mapsto> ascii ''ab''] \<and>
   length (ascii ''590'') < 4 \<and>
   decodeTlv (ascii ''000201590'') = Some [ascii ''00'' \<mapsto> ascii ''01''] \<and>
   length (ascii ''xx'') = 2 \<and> \<not> twoDigits (ascii ''xx'') \<and>
   decodeTlv (ascii ''00020159xx01'') = Some [ascii ''00'' \<mapsto> ascii ''01'']"
proof -
  have f: "list_all completeField [(ascii ''00'', ascii ''02'', ascii ''01'')]"
    by (simp add: completeField_def twoDigits_def isDigit_def numberOfDigits_def ascii_simps)
  have h: "length (ascii ''59'') = 2" "twoDigits (ascii ''05'')"
    "length (ascii ''ab'') < numberOfDigits (ascii ''05'')"
    "length (ascii ''590'') < 4"
    "length (ascii ''xx'') = 2" "\<not> twoDigits (ascii ''xx'')"
    by (simp_all add: twoDigits_def isDigit_def numberOfDigits_def ascii_simps)
  from decodeTlv_final_field [OF f, of "ascii ''59''" "ascii ''05''" "ascii ''ab''"] h
  have 1: "decodeTlv (ascii ''0002015905ab'') =
     Some [ascii ''00'' \<mapsto> ascii ''01'', ascii ''59'' \<mapsto> ascii ''ab'']"
    by (simp add: flatten_def recordFields_def ascii_simps)
  from decodeTlv_final_field [OF f, of _ _ "ascii ''590''"] h
  have 2: "decodeTlv (ascii ''000201590'') = Some [ascii ''00'' \<mapsto> ascii ''01'']"
    by (simp add: flatten_def recordFields_def ascii_simps)
  from decodeTlv_final_field [OF f, of "ascii ''59''" "ascii ''xx''" "ascii ''01''"] h
  have 3: "decodeTlv (ascii ''00020159xx01'') = Some [ascii ''00'' \<mapsto> ascii ''01'']"
    by (simp add: flatten_def recordFields_def ascii_simps)
  from f h 1 2 3 show ?thesis by blast
qed

text \<open>
  C3, as the claim states it, fails: in \<open>0002015905ab\<close> the field \<open>59\<close> declares five
  code units and two are left, and the result has the key \<open>59\<close>, with the value \<open>ab\<close>.
\<close>

theorem decodeTlv_keeps_short_final_field:
  "decodeTlv (ascii ''0002015905ab'') =
     Some [ascii ''00'' \<mapsto> ascii ''01'', ascii ''59'' \<mapsto> ascii ''ab'']"
proof -
  have h: "list_all completeField [(ascii ''00'', ascii ''02'', ascii ''01'')]"
    "length (ascii ''59'') = 2" "twoDigits (ascii ''05'')"
    "length (ascii ''ab'') < numberOfDigits (ascii ''05'')"
    by (simp_all add: completeField_def twoDigits_def isDigit_def numberOfDigits_def ascii_simps)
  from decodeLoop_fields_short_final [OF h] show ?thesis
    by (simp add: decodeTlv_def flatten_def recordFields_def ascii_simps)
qed

text \<open>
  C8. Decoding and verification return on every input string: the loop of \<open>decodeTlv\<close>
  ends with a mapping, and \<open>verify\<close>, which has no loop of its own and no \<open>throw\<close>,
  yields a boolean.
\<close>

theorem decodeTlv_verify_return:
  "(\<exists>m. decodeTlv code = Some m) \<and> (\<exists>b. verify code = b)"
  by (simp add: decodeTlv_def decodeLoop_returns)

text \<open>
  C10. The decoder checks the two length characters only. Whatever the two code units of
  the tag are, a field with a two-digit length and a value of that many code units is
  stored under that tag; \<open>AB03xyz\<close> decodes to the mapping with the key \<open>AB\<close>.
\<close>

theorem decodeTlv_any_tag:
  assumes "length tag = 2" and "twoDigits len" and "numberOfDigits len = length v"
  shows "decodeTlv (tag @ len @ v) = Some [tag \<mapsto> v]"
  unfolding decodeTlv_def by (rule decodeLoop_one_field [OF assms])

theorem decodeTlv_any_tag_witness:
  "length (ascii ''AB'') = 2 \<and> \<not> list_ex isDigit (ascii ''AB'') \<and> twoDigits (ascii ''03'') \<and>
   numberOfDigits (ascii ''03'') = length (ascii ''xyz'') \<and>
   decodeTlv (ascii ''AB03xyz'') = Some [ascii ''AB'' \<mapsto> ascii ''xyz'']"
proof -
  have h: "length (ascii ''AB'') = 2" "twoDigits (ascii ''03'')"
    "numberOfDigits (ascii ''03'') = length (ascii ''xyz'')"
    by (simp_all add: twoDigits_def isDigit_def numberOfDigits_def ascii_simps)
  have n: "\<not> list_ex isDigit (ascii ''AB'')"
    by (simp add: isDigit_def ascii_simps)
  from decodeTlv_any_tag [OF h] h n show ?thesis
    by (simp add: ascii_simps)
qed

section \<open>What the assembly builds\<close>

lemma bindE_simps: "bindE (Inr x) f = f x" "bindE (Inl err) f = Inl err"
  by (simp_all add: bindE_def)

lemma twoDigits_ascii: "twoDigits t \<Longrightarrow> asciiOnly t \<and> length t = 2"
  by (simp add: twoDigits_def digits_asciiOnly)

lemma encodedFields_simps:
  "encodedFields [] = []"
  "encodedFields ((tag, v) # fs) = encoded tag v @ encodedFields fs"
  "encodedFields (fs @ gs) = encodedFields fs @ encodedFields gs"
  by (simp_all add: encodedFields_def)

lemma utf8ByteLength_encoded:
  assumes "twoDigits tag" "utf8ByteLength v \<le> 99"
  shows "utf8ByteLength (encoded tag v) = 4 + utf8ByteLength v"
proof -
  let ?len = "padStart 2 0x30 (decimal (utf8ByteLength v))"
  from padStart_decimal [OF assms(2)] have l: "length ?len = 2" and a: "asciiOnly ?len"
    by (simp_all add: digits_asciiOnly)
  from twoDigits_ascii [OF assms(1)] a have "asciiOnly (tag @ ?len)"
    by (simp add: asciiOnly_def)
  from utf8ByteLength_ascii_append [OF this, of v] l twoDigits_ascii [OF assms(1)]
  show ?thesis by (simp add: encoded_def)
qed

lemma tlv_eq:
  "twoDigits tag \<Longrightarrow>
   tlv tag v = (if 99 < utf8ByteLength v then Inl (ValueTooLong tag (utf8ByteLength v))
                else Inr (encoded tag v))"
  by (simp add: tlv_def encoded_def Let_def)

lemma addTlv_eq:
  "twoDigits tag \<Longrightarrow>
   addTlv tag v s = (if 99 < utf8ByteLength v then Inl (ValueTooLong tag (utf8ByteLength v))
                     else Inr (s @ encoded tag v))"
  by (simp add: addTlv_def tlv_eq bindE_simps)

lemma addTlv_short:
  "twoDigits tag \<Longrightarrow> utf8ByteLength v \<le> 99 \<Longrightarrow> addTlv tag v s = Inr (s @ encoded tag v)"
  by (simp add: addTlv_eq)

lemma truncUtf8_short: "0 \<le> n \<Longrightarrow> n \<le> 99 \<Longrightarrow> utf8ByteLength (truncUtf8 x n) \<le> 99"
  using truncUtf8_le [of n x] by simp

lemma addTlv_trunc:
  "twoDigits tag \<Longrightarrow> 0 \<le> n \<Longrightarrow> n \<le> 99 \<Longrightarrow>
   addTlv tag (truncUtf8 x n) s = Inr (s @ encoded tag (truncUtf8 x n))"
  by (simp add: addTlv_short truncUtf8_short)

lemma addTlvIf_trunc:
  "twoDigits tag \<Longrightarrow> 0 \<le> n \<Longrightarrow> n \<le> 99 \<Longrightarrow>
   addTlvIf tag (truncOpt v n) s = Inr (s @ encodedFields (optField tag (truncOpt v n)))"
  by (simp add: addTlvIf_def truncOpt_def optField_def encodedFields_simps addTlv_trunc
      split: option.splits)

lemma addTlvIf_Some:
  "addTlvIf tag (Some t) s = (if t = [] then Inr s else addTlv tag t s)"
  by (simp add: addTlvIf_def)

lemma truncOpt_truthy: "truthy v \<Longrightarrow> truncOpt v n = Some (truncUtf8 (valueOf v) n)"
  by (auto simp: truthy_def truncOpt_def valueOf_def split: option.splits)

lemma addTlvAssert_trunc:
  "twoDigits tag \<Longrightarrow> 0 \<le> n \<Longrightarrow> n \<le> 99 \<Longrightarrow> truthy v \<Longrightarrow>
   addTlvAssert tag (truncOpt v n) s = Inr (s @ encoded tag (truncUtf8 (valueOf v) n))"
  by (simp add: truncOpt_truthy addTlvAssert_def addTlv_trunc)

lemma utf8ByteLength_optField:
  assumes "twoDigits tag" "0 \<le> n" "n \<le> 99"
  shows "int (utf8ByteLength (encodedFields (optField tag (truncOpt v n)))) \<le> 4 + n"
proof (cases "optField tag (truncOpt v n)")
  case Nil
  then show ?thesis using assms(2) by (simp add: encodedFields_simps utf8ByteLength_Nil)
next
  case (Cons f fs)
  then obtain x where x: "v = Some x" "x \<noteq> []" and f: "optField tag (truncOpt v n) = [(tag, truncUtf8 x n)]"
    by (auto simp: optField_def truncOpt_def split: option.splits if_splits)
  from utf8ByteLength_encoded [OF assms(1) truncUtf8_short [OF assms(2,3)], of x]
    truncUtf8_le [OF assms(2), of x]
  show ?thesis by (simp add: f encodedFields_simps)
qed

lemma twoDigits_literals:
  "twoDigits (ascii ''00'')" "twoDigits (ascii ''01'')" "twoDigits (ascii ''02'')"
  "twoDigits (ascii ''03'')" "twoDigits (ascii ''07'')" "twoDigits (ascii ''08'')"
  "twoDigits (ascii ''15'')" "twoDigits (ascii ''29'')" "twoDigits (ascii ''30'')"
  "twoDigits (ascii ''52'')" "twoDigits (ascii ''53'')" "twoDigits (ascii ''54'')"
  "twoDigits (ascii ''58'')" "twoDigits (ascii ''59'')" "twoDigits (ascii ''60'')"
  "twoDigits (ascii ''62'')" "twoDigits (ascii ''63'')" "twoDigits (ascii ''64'')"
  "twoDigits (ascii ''99'')"
  by (simp_all add: twoDigits_def isDigit_def ascii_simps)

lemma twoDigits_identityTag: "twoDigits (identityTag g)"
  by (simp add: identityTag_def twoDigits_literals)

lemma individualTemplate_eq:
  "merchantType g = Individual \<Longrightarrow>
   individualTemplate (truncUtf8 (valueOf (bakongAccountId g)) 32)
     (truncOpt (accountInformation g) 32) (truncOpt (acquiringBank g) 32) =
   Inr (encodedFields (identityFields g))"
  by (simp add: individualTemplate_def identityFields_def addTlv_trunc addTlvIf_trunc
      twoDigits_literals bindE_simps encodedFields_simps)

lemma merchantTemplate_eq:
  "merchantType g \<noteq> Individual \<Longrightarrow> truthy (merchantId g) \<Longrightarrow> truthy (acquiringBank g) \<Longrightarrow>
   merchantTemplate (truncUtf8 (valueOf (bakongAccountId g)) 32)
     (truncOpt (merchantId g) 32) (truncOpt (acquiringBank g) 32) =
   Inr (encodedFields (identityFields g))"
  by (simp add: merchantTemplate_def identityFields_def addTlv_trunc addTlvAssert_trunc
      twoDigits_literals bindE_simps encodedFields_simps)

lemma additionalData_eq:
  "additionalData (truncOpt (billNumber g) 25) (truncOpt (mobileNumber g) 25)
     (truncOpt (storeLabel g) 25) (truncOpt (terminalLabel g) 25)
     (truncOpt (purposeOfTransaction g) 25) =
   Inr (encodedFields (additionalFields g))"
  by (simp add: additionalData_def additionalFields_def addTlvIf_trunc
      twoDigits_literals bindE_simps encodedFields_simps)

lemma alternateLanguage_eq:
  "alternateLanguage (truncOpt (merchantAlternateLanguagePreference g) 2)
     (truncOpt (merchantNameAlternateLanguage g) 25)
     (truncOpt (merchantCityAlternateLanguage g) 15) =
   Inr (encodedFields (alternateFields g))"
  by (simp add: alternateLanguage_def alternateFields_def addTlvIf_trunc
      twoDigits_literals bindE_simps encodedFields_simps)

lemma utf8ByteLength_alternate: "utf8ByteLength (encodedFields (alternateFields g)) \<le> 54"
proof -
  let ?a = "encodedFields (optField (ascii ''00'') (truncOpt (merchantAlternateLanguagePreference g) 2))"
  let ?b = "encodedFields (optField (ascii ''01'') (truncOpt (merchantNameAlternateLanguage g) 25))"
  let ?c = "encodedFields (optField (ascii ''02'') (truncOpt (merchantCityAlternateLanguage g) 15))"
  have "utf8ByteLength (?a @ ?b @ ?c) \<le> utf8ByteLength ?a + (utf8ByteLength ?b + utf8ByteLength ?c)"
    using utf8ByteLength_append_le [of ?a "?b @ ?c"] utf8ByteLength_append_le [of ?b ?c]
    by simp
  moreover have "int (utf8ByteLength ?a) \<le> 4 + 2"
    by (rule utf8ByteLength_optField) (simp_all add: twoDigits_literals)
  moreover have "int (utf8ByteLength ?b) \<le> 4 + 25"
    by (rule utf8ByteLength_optField) (simp_all add: twoDigits_literals)
  moreover have "int (utf8ByteLength ?c) \<le> 4 + 15"
    by (rule utf8ByteLength_optField) (simp_all add: twoDigits_literals)
  ultimately show ?thesis
    by (simp add: alternateFields_def encodedFields_simps)
qed

lemma timestamp_eq:
  assumes "\<bar>now e\<bar> \<le> 8640000000000000"
  shows "tlv (ascii ''00'') (stringOfInt (now e)) = Inr (encoded (ascii ''00'') (stringOfInt (now e)))"
    and "utf8ByteLength (encoded (ascii ''00'') (stringOfInt (now e))) \<le> 99"
proof -
  have l: "utf8ByteLength (stringOfInt (now e)) \<le> 17"
    using length_stringOfInt [OF assms] by (simp add: utf8ByteLength_ascii stringOfInt_ascii)
  then show "tlv (ascii ''00'') (stringOfInt (now e)) = Inr (encoded (ascii ''00'') (stringOfInt (now e)))"
    by (simp add: tlv_eq twoDigits_literals)
  from l utf8ByteLength_encoded [of "ascii ''00''" "stringOfInt (now e)"]
  show "utf8ByteLength (encoded (ascii ''00'') (stringOfInt (now e))) \<le> 99"
    by (simp add: twoDigits_literals)
qed

lemma decimal_nonempty: "decimal n \<noteq> []"
  by (subst decimal.simps) simp

lemma stringOfInt_nonempty: "stringOfInt i \<noteq> []"
  by (simp add: stringOfInt_def decimal_nonempty)

lemma identity_step:
  assumes "merchantType g = Merchant \<longrightarrow> truthy (merchantId g) \<and> truthy (acquiringBank g)"
  shows "(if merchantType g = Individual
          then bindE (individualTemplate (truncUtf8 (valueOf (bakongAccountId g)) 32)
                       (truncOpt (accountInformation g) 32) (truncOpt (acquiringBank g) 32))
                 (\<lambda>t. addTlv (ascii ''29'') t p)
          else bindE (merchantTemplate (truncUtf8 (valueOf (bakongAccountId g)) 32)
                       (truncOpt (merchantId g) 32) (truncOpt (acquiringBank g) 32))
                 (\<lambda>t. addTlv (ascii ''30'') t p)) =
         addTlv (identityTag g) (encodedFields (identityFields g)) p"
proof (cases "merchantType g")
  case Individual
  then show ?thesis
    by (simp add: individualTemplate_eq bindE_simps identityTag_def)
next
  case Merchant
  with assms show ?thesis
    by (simp add: merchantTemplate_eq bindE_simps identityTag_def)
qed

lemma amount_step:
  "(case amount g of None \<Rightarrow> Inr p | Some a \<Rightarrow> addTlv (ascii ''54'') a p) =
   (if 99 < utf8ByteLength (valueOf (amount g))
    then Inl (ValueTooLong (ascii ''54'') (utf8ByteLength (valueOf (amount g))))
    else Inr (p @ encodedFields (case amount g of None \<Rightarrow> [] | Some a \<Rightarrow> [(ascii ''54'', a)])))"
  by (simp add: valueOf_def addTlv_eq twoDigits_literals encodedFields_simps utf8ByteLength_Nil
      split: option.splits)

lemma additional_step:
  "bindE (additionalData (truncOpt (billNumber g) 25) (truncOpt (mobileNumber g) 25)
            (truncOpt (storeLabel g) 25) (truncOpt (terminalLabel g) 25)
            (truncOpt (purposeOfTransaction g) 25))
     (\<lambda>t. addTlvIf (ascii ''62'') (Some t) p) =
   (if 99 < utf8ByteLength (encodedFields (additionalFields g))
    then Inl (ValueTooLong (ascii ''62'') (utf8ByteLength (encodedFields (additionalFields g))))
    else Inr (p @ encodedFields (optField (ascii ''62'') (Some (encodedFields (additionalFields g))))))"
  by (simp add: additionalData_eq bindE_simps addTlvIf_Some addTlv_eq twoDigits_literals
      optField_def encodedFields_simps utf8ByteLength_Nil)

lemma alternate_step:
  "bindE (alternateLanguage (truncOpt (merchantAlternateLanguagePreference g) 2)
            (truncOpt (merchantNameAlternateLanguage g) 25)
            (truncOpt (merchantCityAlternateLanguage g) 15))
     (\<lambda>t. addTlvIf (ascii ''64'') (Some t) p) =
   Inr (p @ encodedFields (optField (ascii ''64'') (Some (encodedFields (alternateFields g)))))"
  using utf8ByteLength_alternate [of g]
  by (simp add: alternateLanguage_eq bindE_simps addTlvIf_Some addTlv_eq twoDigits_literals
      optField_def encodedFields_simps)

lemma timestamp_step:
  "(if truthy (if isStatic g then None else Some (stringOfInt (now e)))
    then bindE (tlv (ascii ''00'')
                  (valueOf (if isStatic g then None else Some (stringOfInt (now e)))))
           (\<lambda>t99. addTlv (ascii ''99'') t99 p)
    else Inr p) =
   (if isStatic g then Inr p
    else if 99 < utf8ByteLength (stringOfInt (now e))
    then Inl (ValueTooLong (ascii ''00'') (utf8ByteLength (stringOfInt (now e))))
    else if 99 < utf8ByteLength (encoded (ascii ''00'') (stringOfInt (now e)))
    then Inl (ValueTooLong (ascii ''99'')
                (utf8ByteLength (encoded (ascii ''00'') (stringOfInt (now e)))))
    else Inr (p @ encoded (ascii ''99'') (encoded (ascii ''00'') (stringOfInt (now e)))))"
  by (simp add: truthy_def valueOf_def stringOfInt_nonempty bindE_simps tlv_eq addTlv_eq
      twoDigits_literals)


lemma literal_lengths:
  "utf8ByteLength (ascii ''01'') \<le> 99" "utf8ByteLength (ascii ''11'') \<le> 99"
  "utf8ByteLength (ascii ''12'') \<le> 99" "utf8ByteLength (ascii ''5999'') \<le> 99"
  "utf8ByteLength (ascii ''116'') \<le> 99" "utf8ByteLength (ascii ''840'') \<le> 99"
  "utf8ByteLength (ascii ''KH'') \<le> 99"
  by (simp_all add: utf8ByteLength_ascii asciiOnly_def ascii_simps)

lemma assemble_eq:
  assumes req: "merchantType g = Merchant \<longrightarrow> truthy (merchantId g) \<and> truthy (acquiringBank g)"
  shows "assemble e g =
     (if 99 < utf8ByteLength (encodedFields (identityFields g))
      then Inl (ValueTooLong (identityTag g) (utf8ByteLength (encodedFields (identityFields g))))
      else if 99 < utf8ByteLength (valueOf (amount g))
      then Inl (ValueTooLong (ascii ''54'') (utf8ByteLength (valueOf (amount g))))
      else if 99 < utf8ByteLength (encodedFields (additionalFields g))
      then Inl (ValueTooLong (ascii ''62'') (utf8ByteLength (encodedFields (additionalFields g))))
      else if \<not> isStatic g \<and> 99 < utf8ByteLength (stringOfInt (now e))
      then Inl (ValueTooLong (ascii ''00'') (utf8ByteLength (stringOfInt (now e))))
      else if \<not> isStatic g \<and> 99 < utf8ByteLength (encoded (ascii ''00'') (stringOfInt (now e)))
      then Inl (ValueTooLong (ascii ''99'')
                  (utf8ByteLength (encoded (ascii ''00'') (stringOfInt (now e)))))
      else Inr \<lparr>qr = encodedFields (topFields e g) @ ascii ''6304'' @
                      crc16CcittFalseHex (encodedFields (topFields e g) @ ascii ''6304''),
                timestamp = (if isStatic g then None else Some (stringOfInt (now e))),
                resultType = merchantType g,
                md5 = md5Hex e (encodedFields (topFields e g) @ ascii ''6304'' @
                      crc16CcittFalseHex (encodedFields (topFields e g) @ ascii ''6304''))\<rparr>)"
  unfolding assemble_def Let_def valueOf_def [symmetric]
  unfolding identity_step [OF req] amount_step additional_step alternate_step timestamp_step
  by (simp add: addTlv_short addTlv_trunc addTlvIf_trunc twoDigits_literals literal_lengths
      addTlv_eq [OF twoDigits_identityTag] bindE_simps topFields_def bodyFields_def headFields_def tailFields_def
      encodedFields_simps)

text \<open>The outcome of \<open>generate\<close>, case by case.\<close>

lemma generate_eq:
  "generate e g =
     (if \<not> truthy (bakongAccountId g) then Inl (Required BakongAccountID)
      else if \<not> truthy (merchantName g) then Inl (Required MerchantName)
      else if merchantType g = Merchant \<and> \<not> truthy (merchantId g)
        then Inl (Required MerchantID)
      else if merchantType g = Merchant \<and> \<not> truthy (acquiringBank g)
        then Inl (Required AcquiringBank)
      else if 99 < utf8ByteLength (encodedFields (identityFields g))
      then Inl (ValueTooLong (identityTag g) (utf8ByteLength (encodedFields (identityFields g))))
      else if 99 < utf8ByteLength (valueOf (amount g))
      then Inl (ValueTooLong (ascii ''54'') (utf8ByteLength (valueOf (amount g))))
      else if 99 < utf8ByteLength (encodedFields (additionalFields g))
      then Inl (ValueTooLong (ascii ''62'') (utf8ByteLength (encodedFields (additionalFields g))))
      else if \<not> isStatic g \<and> 99 < utf8ByteLength (stringOfInt (now e))
      then Inl (ValueTooLong (ascii ''00'') (utf8ByteLength (stringOfInt (now e))))
      else if \<not> isStatic g \<and> 99 < utf8ByteLength (encoded (ascii ''00'') (stringOfInt (now e)))
      then Inl (ValueTooLong (ascii ''99'')
                  (utf8ByteLength (encoded (ascii ''00'') (stringOfInt (now e)))))
      else Inr \<lparr>qr = encodedFields (topFields e g) @ ascii ''6304'' @
                      crc16CcittFalseHex (encodedFields (topFields e g) @ ascii ''6304''),
                timestamp = (if isStatic g then None else Some (stringOfInt (now e))),
                resultType = merchantType g,
                md5 = md5Hex e (encodedFields (topFields e g) @ ascii ''6304'' @
                      crc16CcittFalseHex (encodedFields (topFields e g) @ ascii ''6304''))\<rparr>)"
proof (cases "merchantType g = Merchant \<longrightarrow> truthy (merchantId g) \<and> truthy (acquiringBank g)")
  case True
  show ?thesis
    unfolding generate_def assemble_eq [OF True] using True by auto
next
  case False
  then show ?thesis by (auto simp: generate_def)
qed

text \<open>
  The tags are constants of two digits and the merchant fields are checked before they
  are used: \<open>generate\<close> never throws "Invalid tag" and never passes \<open>undefined\<close> to \<open>tlv\<close>.
\<close>

theorem generate_no_internal_error:
  "generate e g \<noteq> Inl (InvalidTag t) \<and> generate e g \<noteq> Inl TypeError"
  unfolding generate_eq by simp

section \<open>A payload has one field sequence\<close>

lemma utf8Unit_nonempty: "utf8Unit u \<noteq> []"
  by (simp add: utf8Unit_def)

lemma utf8ByteLength_pos: "x \<noteq> [] \<Longrightarrow> 0 < utf8ByteLength x"
  by (cases x)
    (auto simp: utf8ByteLength_def utf8Replacement_def utf8Pair_def Let_def utf8Unit_nonempty
      split: list.splits)

lemma utf8ByteLength_append_less:
  "x \<noteq> [] \<Longrightarrow> utf8ByteLength a < utf8ByteLength (a @ x)"
proof (induction a rule: utf8Encode.induct)
  case 1
  then show ?case by (simp add: utf8ByteLength_pos utf8ByteLength_Nil)
next
  case (2 u r)
  show ?case
  proof (cases "isHigh u")
    case high: True
    show ?thesis
    proof (cases r)
      case Nil
      from 2(5) obtain y x' where x: "x = y # x'" by (cases x) auto
      show ?thesis
      proof (cases "isLow y")
        case True
        then show ?thesis
          using high Nil x
          by (simp add: utf8ByteLength_def utf8Replacement_def length_utf8Pair)
      next
        case False
        then show ?thesis
          using high Nil x utf8ByteLength_pos [of x]
          by (simp add: utf8ByteLength_def utf8Replacement_def)
      qed
    next
      case (Cons w r')
      show ?thesis
      proof (cases "isLow w")
        case True
        with 2(1) [OF high Cons True 2(5)] high Cons show ?thesis
          by (simp add: utf8ByteLength_def)
      next
        case False
        with 2(2) [OF high Cons False 2(5)] high Cons show ?thesis
          by (simp add: utf8ByteLength_def)
      qed
    qed
  next
    case nothigh: False
    show ?thesis
    proof (cases "isLow u")
      case True
      with 2(3) [OF nothigh True 2(5)] nothigh show ?thesis
        by (simp add: utf8ByteLength_def)
    next
      case False
      with 2(4) [OF nothigh False 2(5)] nothigh show ?thesis
        by (simp add: utf8ByteLength_def)
    qed
  qed
qed

lemma same_length_prefix:
  assumes "v @ r = v' @ r'" and "utf8ByteLength v = utf8ByteLength v'"
  shows "v = v' \<and> r = r'"
proof -
  from assms(1) consider x where "v' = v @ x" "r = x @ r'" | x where "v = v' @ x" "r' = x @ r"
    by (auto simp: append_eq_append_conv2)
  then show ?thesis
  proof cases
    case 1
    with utf8ByteLength_append_less [of x v] assms(2) have "x = []" by auto
    with 1 show ?thesis by simp
  next
    case 2
    with utf8ByteLength_append_less [of x v'] assms(2) have "x = []" by auto
    with 2 show ?thesis by simp
  qed
qed

lemma digitChar_inject: "a < 10 \<Longrightarrow> b < 10 \<Longrightarrow> digitChar a = digitChar b \<Longrightarrow> a = b"
proof -
  assume "a < 10" "b < 10" and e: "digitChar a = digitChar b"
  then have "a \<in> {0, 1, 2, 3, 4, 5, 6, 7, 8, 9}" "b \<in> {0, 1, 2, 3, 4, 5, 6, 7, 8, 9}" by auto
  with e show ?thesis by (auto simp: digitChar_def)
qed

lemma padStart_decimal_eq:
  assumes "n \<le> 99"
  shows "padStart 2 0x30 (decimal n) = [digitChar (n div 10), digitChar (n mod 10)]"
proof (cases "n < 10")
  case True
  then show ?thesis
    by (subst decimal.simps) (simp add: padStart_def digitChar_def)
next
  case False
  with assms have d: "n div 10 < 10" by simp
  have "decimal n = decimal (n div 10) @ [digitChar (n mod 10)]"
    using False by (subst decimal.simps) simp
  also have "decimal (n div 10) = [digitChar (n div 10)]"
    using d by (subst decimal.simps) simp
  finally show ?thesis by (simp add: padStart_def)
qed

lemma padStart_decimal_inject:
  assumes "n \<le> 99" "m \<le> 99"
    and "padStart 2 0x30 (decimal n) = padStart 2 0x30 (decimal m)"
  shows "n = m"
proof -
  from assms have "digitChar (n div 10) = digitChar (m div 10)"
    "digitChar (n mod 10) = digitChar (m mod 10)"
    by (simp_all add: padStart_decimal_eq)
  with assms(1,2) have "n div 10 = m div 10" "n mod 10 = m mod 10"
    by (auto intro!: digitChar_inject)
  then show ?thesis by (metis div_mult_mod_eq)
qed

lemma encoded_inject:
  assumes "twoDigits t" "twoDigits t'" "utf8ByteLength v \<le> 99" "utf8ByteLength v' \<le> 99"
    and "encoded t v @ r = encoded t' v' @ r'"
  shows "t = t' \<and> v = v' \<and> r = r'"
proof -
  let ?l = "padStart 2 0x30 (decimal (utf8ByteLength v))"
  let ?l' = "padStart 2 0x30 (decimal (utf8ByteLength v'))"
  from assms(1,2) have lt: "length t = 2" "length t' = 2" by (simp_all add: twoDigits_def)
  from padStart_decimal [OF assms(3)] padStart_decimal [OF assms(4)]
  have ll: "length ?l = 2" "length ?l' = 2" by simp_all
  from assms(5) have e: "t @ (?l @ v @ r) = t' @ (?l' @ v' @ r')" by (simp add: encoded_def)
  with lt have t: "t = t'" and e2: "?l @ (v @ r) = ?l' @ (v' @ r')" by simp_all
  from e2 ll have l: "?l = ?l'" and e3: "v @ r = v' @ r'" by simp_all
  from padStart_decimal_inject [OF assms(3,4) l] same_length_prefix [OF e3] t
  show ?thesis by simp
qed

lemma encodeFields_Cons:
  assumes "encodeFields ((t, v) # fs) = Inr s"
  obtains r where "twoDigits t" "utf8ByteLength v \<le> 99" "encodeFields fs = Inr r"
    "s = encoded t v @ r"
  using assms by (auto simp: bindE_def tlv_def encoded_def Let_def split: sum.splits if_splits)

lemma encoded_nonempty: "twoDigits t \<Longrightarrow> encoded t v \<noteq> []"
  by (auto simp: encoded_def twoDigits_def)


text \<open>
  Two field sequences with the same encoding are equal: the tag and the length of the
  first field are read off the first four characters, and the value is the one prefix of
  the rest with that many UTF-8 bytes. So the fields a payload contains are well defined.
\<close>

theorem encodeFields_unique:
  "encodeFields fs = Inr s \<Longrightarrow> encodeFields gs = Inr s \<Longrightarrow> fs = gs"
proof (induction fs arbitrary: gs s)
  case Nil
  then have s: "s = []" by simp
  show ?case
  proof (cases gs)
    case Nil
    then show ?thesis by simp
  next
    case (Cons g gs')
    obtain t v where g: "g = (t, v)" by (cases g)
    have "encodeFields ((t, v) # gs') = Inr s"
      using Nil.prems(2) unfolding Cons g .
    then obtain r where "twoDigits t" "utf8ByteLength v \<le> 99" "encodeFields gs' = Inr r"
      "s = encoded t v @ r"
      by (rule encodeFields_Cons)
    with s encoded_nonempty [of t v] show ?thesis by simp
  qed
next
  case (Cons f fs)
  obtain t v where f: "f = (t, v)" by (cases f)
  have "encodeFields ((t, v) # fs) = Inr s"
    using Cons.prems(1) unfolding f .
  then obtain r where a: "twoDigits t" "utf8ByteLength v \<le> 99"
    "encodeFields fs = Inr r" "s = encoded t v @ r"
    by (rule encodeFields_Cons)
  show ?case
  proof (cases gs)
    case Nil
    with Cons.prems(2) a(1,4) encoded_nonempty [of t v] show ?thesis by simp
  next
    case (Cons g gs')
    obtain t' v' where g: "g = (t', v')" by (cases g)
    have "encodeFields ((t', v') # gs') = Inr s"
      using Cons.prems(2) unfolding Cons g .
    then obtain r' where b: "twoDigits t'" "utf8ByteLength v' \<le> 99"
      "encodeFields gs' = Inr r'" "s = encoded t' v' @ r'"
      by (rule encodeFields_Cons)
    from a(4) b(4) have "encoded t v @ r = encoded t' v' @ r'" by simp
    from encoded_inject [OF a(1) b(1) a(2) b(2) this]
    have e: "t = t'" "v = v'" "r = r'" by simp_all
    from Cons.IH [OF a(3)] b(3) e(3) have "fs = gs'" by simp
    with Cons f g e show ?thesis by simp
  qed
qed

theorem encodeFields_unique_witness:
  "encodeFields [(ascii ''59'', ascii ''ab'')] = Inr (ascii ''5902ab'') \<and>
   [(ascii ''59'', ascii ''ab'')] = [(ascii ''59'', ascii ''ab'')]"
proof -
  have e: "encodeFields [(ascii ''59'', ascii ''ab'')] = Inr (ascii ''5902ab'')"
    by (simp add: bindE_def tlv_def Let_def twoDigits_def isDigit_def padStart_def
        decimal.simps digitChar_def utf8ByteLength_ascii asciiOnly_def ascii_simps)
  from encodeFields_unique [OF e e] e show ?thesis by simp
qed

lemma encodeFields_short:
  "list_all (\<lambda>f. twoDigits (fst f) \<and> utf8ByteLength (snd f) \<le> 99) fs \<Longrightarrow>
   encodeFields fs = Inr (encodedFields fs)"
  by (induction fs) (auto simp: encodedFields_simps tlv_eq bindE_simps)

lemma optField_short:
  "twoDigits tag \<Longrightarrow> 0 \<le> n \<Longrightarrow> n \<le> 99 \<Longrightarrow>
   list_all (\<lambda>f. twoDigits (fst f) \<and> utf8ByteLength (snd f) \<le> 99) (optField tag (truncOpt v n))"
  by (auto simp: optField_def truncOpt_def truncUtf8_short split: option.splits)

lemma optField_Some_short:
  "twoDigits tag \<Longrightarrow> utf8ByteLength t \<le> 99 \<Longrightarrow>
   list_all (\<lambda>f. twoDigits (fst f) \<and> utf8ByteLength (snd f) \<le> 99) (optField tag (Some t))"
  by (simp add: optField_def)

lemma topFields_short:
  assumes "utf8ByteLength (encodedFields (identityFields g)) \<le> 99"
    and "utf8ByteLength (valueOf (amount g)) \<le> 99"
    and "utf8ByteLength (encodedFields (additionalFields g)) \<le> 99"
    and "isStatic g \<or> utf8ByteLength (encoded (ascii ''00'') (stringOfInt (now e))) \<le> 99"
  shows "list_all (\<lambda>f. twoDigits (fst f) \<and> utf8ByteLength (snd f) \<le> 99) (topFields e g)"
  using assms utf8ByteLength_alternate [of g]
  by (auto simp: topFields_def bodyFields_def headFields_def tailFields_def twoDigits_literals
      literal_lengths twoDigits_identityTag optField_short optField_Some_short
      truncUtf8_short valueOf_def split: option.splits)

lemma generate_success:
  assumes "generate e g = Inr r"
  shows "encodeFields (topFields e g) = Inr (encodedFields (topFields e g))"
    and "qr r = encodedFields (topFields e g) @ ascii ''6304'' @
                crc16CcittFalseHex (encodedFields (topFields e g) @ ascii ''6304'')"
    and "timestamp r = (if isStatic g then None else Some (stringOfInt (now e)))"
    and "\<not> isStatic g \<Longrightarrow> utf8ByteLength (stringOfInt (now e)) \<le> 99"
proof -
  from assms have c: "utf8ByteLength (encodedFields (identityFields g)) \<le> 99"
    "utf8ByteLength (valueOf (amount g)) \<le> 99"
    "utf8ByteLength (encodedFields (additionalFields g)) \<le> 99"
    "isStatic g \<or> utf8ByteLength (encoded (ascii ''00'') (stringOfInt (now e))) \<le> 99"
    "isStatic g \<or> utf8ByteLength (stringOfInt (now e)) \<le> 99"
    and r: "r = \<lparr>qr = encodedFields (topFields e g) @ ascii ''6304'' @
                      crc16CcittFalseHex (encodedFields (topFields e g) @ ascii ''6304''),
                timestamp = (if isStatic g then None else Some (stringOfInt (now e))),
                resultType = merchantType g,
                md5 = md5Hex e (encodedFields (topFields e g) @ ascii ''6304'' @
                      crc16CcittFalseHex (encodedFields (topFields e g) @ ascii ''6304''))\<rparr>"
    unfolding generate_eq by (simp_all split: if_splits)
  from encodeFields_short [OF topFields_short [OF c(1-4)]]
  show "encodeFields (topFields e g) = Inr (encodedFields (topFields e g))" .
  from r show "qr r = encodedFields (topFields e g) @ ascii ''6304'' @
                crc16CcittFalseHex (encodedFields (topFields e g) @ ascii ''6304'')"
    by simp
  from r show "timestamp r = (if isStatic g then None else Some (stringOfInt (now e)))"
    by simp
  from c(5) show "\<not> isStatic g \<Longrightarrow> utf8ByteLength (stringOfInt (now e)) \<le> 99" by simp
qed

lemma tags_headFields:
  "fst ` set (headFields g) \<subseteq>
   {ascii ''00'', ascii ''01'', ascii ''15'', ascii ''29'', ascii ''30'', ascii ''52'', ascii ''53''}"
  by (auto simp: headFields_def identityTag_def optField_def split: option.splits if_splits)

lemma tags_tailFields:
  "fst ` set (tailFields g) \<subseteq>
   {ascii ''58'', ascii ''59'', ascii ''60'', ascii ''62'', ascii ''64''}"
  by (auto simp: tailFields_def optField_def split: option.splits if_splits)

lemma no_timestamp_tag: "ascii ''99'' \<notin> fst ` set (bodyFields g)"
proof -
  have "ascii ''99'' \<notin> fst ` set (headFields g)"
    using tags_headFields [of g] by (auto simp: ascii_simps)
  moreover have "ascii ''99'' \<notin> fst ` set (tailFields g)"
    using tags_tailFields [of g] by (auto simp: ascii_simps)
  ultimately show ?thesis
    by (auto simp: bodyFields_def ascii_simps split: option.splits)
qed

lemma no_amount_tag:
  "ascii ''54'' \<notin> fst ` set (headFields g)" "ascii ''54'' \<notin> fst ` set (tailFields g)"
  using tags_headFields [of g] tags_tailFields [of g] by (auto simp: ascii_simps)


lemma clock_short:
  assumes "\<bar>now e\<bar> \<le> 8640000000000000"
  shows "\<not> 99 < utf8ByteLength (stringOfInt (now e))"
    and "\<not> 99 < utf8ByteLength (encoded (ascii ''00'') (stringOfInt (now e)))"
proof -
  have "utf8ByteLength (stringOfInt (now e)) \<le> 17"
    using length_stringOfInt [OF assms] by (simp add: utf8ByteLength_ascii stringOfInt_ascii)
  then show "\<not> 99 < utf8ByteLength (stringOfInt (now e))" by simp
  from timestamp_eq(2) [OF assms]
  show "\<not> 99 < utf8ByteLength (encoded (ascii ''00'') (stringOfInt (now e)))" by simp
qed

lemma utf8ByteLength_individual:
  assumes "merchantType g = Individual" "\<not> truthy (acquiringBank g)"
  shows "utf8ByteLength (encodedFields (identityFields g)) \<le> 72"
proof -
  let ?a = "encoded (ascii ''00'') (truncUtf8 (valueOf (bakongAccountId g)) 32)"
  let ?b = "encodedFields (optField (ascii ''01'') (truncOpt (accountInformation g) 32))"
  from assms(2) have n: "optField (ascii ''02'') (truncOpt (acquiringBank g) 32) = []"
    by (auto simp: truthy_def truncOpt_def optField_def split: option.splits)
  have "utf8ByteLength ?a = 4 + utf8ByteLength (truncUtf8 (valueOf (bakongAccountId g)) 32)"
    by (rule utf8ByteLength_encoded) (simp_all add: twoDigits_literals truncUtf8_short)
  moreover have "int (utf8ByteLength (truncUtf8 (valueOf (bakongAccountId g)) 32)) \<le> 32"
    by (rule truncUtf8_le) simp
  moreover have "int (utf8ByteLength ?b) \<le> 4 + 32"
    by (rule utf8ByteLength_optField) (simp_all add: twoDigits_literals)
  moreover have "utf8ByteLength (?a @ ?b) \<le> utf8ByteLength ?a + utf8ByteLength ?b"
    by (rule utf8ByteLength_append_le)
  ultimately show ?thesis
    using assms(1) by (simp add: identityFields_def encodedFields_simps n)
qed

section \<open>Examples\<close>

lemma truncUtf8_ascii: "asciiOnly s \<Longrightarrow> int (length s) \<le> n \<Longrightarrow> truncUtf8 s n = s"
  by (simp add: truncUtf8_def utf8ByteLength_ascii)

lemma tlv_ascii:
  "twoDigits tag \<Longrightarrow> asciiOnly v \<Longrightarrow>
   tlv tag v = (if 99 < length v then Inl (ValueTooLong tag (length v))
                else Inr (tag @ padStart 2 0x30 (decimal (length v)) @ v))"
  by (simp add: tlv_def utf8ByteLength_ascii Let_def)

lemmas eval_simps = ascii_simps asciiOnly_def twoDigits_def isDigit_def padStart_def digitChar_def
  bindE_def addTlv_def addTlvIf_def addTlvAssert_def truncOpt_def truthy_def
  individualTemplate_def merchantTemplate_def additionalData_def alternateLanguage_def
  truncUtf8_ascii tlv_ascii decimal.simps stringOfInt_def
  exampleEnv_def johnSmith_def staticJohn_def newGenerator_def setStatic_def
  setBakongAccountId_def setMerchantName_def

lemma crc_static:
  "crc16CcittFalseHex (ascii ''00020101021129190015john_smith@devb5204599953031165802KH5910John Smith6010Phnom Penh6304'') = ascii ''6BFA''"
proof -
  have ascii: "asciiOnly (ascii ''00020101021129190015john_smith@devb5204599953031165802KH5910John Smith6010Phnom Penh6304'')"
    by (simp add: asciiOnly_def ascii_simps)
  have cast: "map ucast (ascii ''00020101021129190015john_smith@devb5204599953031165802KH5910John Smith6010Phnom Penh6304'') =
    ([48, 48, 48, 50, 48, 49, 48, 49, 48, 50, 49, 49, 50, 57, 49, 57, 48, 48, 49, 53, 
     106, 111, 104, 110, 95, 115, 109, 105, 116, 104, 64, 100, 101, 118, 98, 53, 50, 
     48, 52, 53, 57, 57, 57, 53, 51, 48, 51, 49, 49, 54, 53, 56, 48, 50, 75, 72, 53, 
     57, 49, 48, 74, 111, 104, 110, 32, 83, 109, 105, 116, 104, 54, 48, 49, 48, 80, 
     104, 110, 111, 109, 32, 80, 101, 110, 104, 54, 51, 48, 52] :: 8 word list)"
    by (simp add: ascii_simps)
  have register: "crcBytes
    [48, 48, 48, 50, 48, 49, 48, 49, 48, 50, 49, 49, 50, 57, 49, 57, 48, 48, 49, 53, 
     106, 111, 104, 110, 95, 115, 109, 105, 116, 104, 64, 100, 101, 118, 98, 53, 50, 
     48, 52, 53, 57, 57, 57, 53, 51, 48, 51, 49, 49, 54, 53, 56, 48, 50, 75, 72, 53, 
     57, 49, 48, 74, 111, 104, 110, 32, 83, 109, 105, 116, 104, 54, 48, 49, 48, 80, 
     104, 110, 111, 109, 32, 80, 101, 110, 104, 54, 51, 48, 52] 0xFFFF = 27642"
    by code_simp
  have hex: "padStart 4 0x30 (toUpperCase (toString16 (nat 27642))) = ascii ''6BFA''"
    by (simp add: padStart_def toUpperCase_def upperUnit_def digitChar_def ascii_simps
        toString16.simps)
  show ?thesis
    by (simp only: crc16CcittFalseHex_def utf8Encode_ascii [OF ascii] cast register hex)
qed

lemma generate_static: "generate exampleEnv staticJohn = Inr staticResult"
proof -
  have "generate exampleEnv staticJohn =
     Inr \<lparr>qr = ascii ''00020101021129190015john_smith@devb5204599953031165802KH5910John Smith6010Phnom Penh6304'' @
                 crc16CcittFalseHex (ascii ''00020101021129190015john_smith@devb5204599953031165802KH5910John Smith6010Phnom Penh6304''),
          timestamp = None, resultType = Individual, md5 = []\<rparr>"
    by (simp add: generate_def assemble_def eval_simps)
  then show ?thesis
    unfolding crc_static by (simp add: ascii_simps staticResult_def)
qed

lemma crc_dynamic:
  "crc16CcittFalseHex (ascii ''00020101021229190015john_smith@devb5204599953031165802KH5910John Smith6010Phnom Penh9917001317000000000006304'') = ascii ''2FDF''"
proof -
  have ascii: "asciiOnly (ascii ''00020101021229190015john_smith@devb5204599953031165802KH5910John Smith6010Phnom Penh9917001317000000000006304'')"
    by (simp add: asciiOnly_def ascii_simps)
  have cast: "map ucast (ascii ''00020101021229190015john_smith@devb5204599953031165802KH5910John Smith6010Phnom Penh9917001317000000000006304'') =
    ([48, 48, 48, 50, 48, 49, 48, 49, 48, 50, 49, 50, 50, 57, 49, 57, 48, 48, 49, 53, 
     106, 111, 104, 110, 95, 115, 109, 105, 116, 104, 64, 100, 101, 118, 98, 53, 50, 
     48, 52, 53, 57, 57, 57, 53, 51, 48, 51, 49, 49, 54, 53, 56, 48, 50, 75, 72, 53, 
     57, 49, 48, 74, 111, 104, 110, 32, 83, 109, 105, 116, 104, 54, 48, 49, 48, 80, 
     104, 110, 111, 109, 32, 80, 101, 110, 104, 57, 57, 49, 55, 48, 48, 49, 51, 49, 
     55, 48, 48, 48, 48, 48, 48, 48, 48, 48, 48, 48, 54, 51, 48, 52] :: 8 word list)"
    by (simp add: ascii_simps)
  have register: "crcBytes
    [48, 48, 48, 50, 48, 49, 48, 49, 48, 50, 49, 50, 50, 57, 49, 57, 48, 48, 49, 53, 
     106, 111, 104, 110, 95, 115, 109, 105, 116, 104, 64, 100, 101, 118, 98, 53, 50, 
     48, 52, 53, 57, 57, 57, 53, 51, 48, 51, 49, 49, 54, 53, 56, 48, 50, 75, 72, 53, 
     57, 49, 48, 74, 111, 104, 110, 32, 83, 109, 105, 116, 104, 54, 48, 49, 48, 80, 
     104, 110, 111, 109, 32, 80, 101, 110, 104, 57, 57, 49, 55, 48, 48, 49, 51, 49, 
     55, 48, 48, 48, 48, 48, 48, 48, 48, 48, 48, 48, 54, 51, 48, 52] 0xFFFF = 12255"
    by code_simp
  have hex: "padStart 4 0x30 (toUpperCase (toString16 (nat 12255))) = ascii ''2FDF''"
    by (simp add: padStart_def toUpperCase_def upperUnit_def digitChar_def ascii_simps
        toString16.simps)
  show ?thesis
    by (simp only: crc16CcittFalseHex_def utf8Encode_ascii [OF ascii] cast register hex)
qed

lemma generate_dynamic: "generate exampleEnv johnSmith = Inr dynamicResult"
proof -
  have "generate exampleEnv johnSmith =
     Inr \<lparr>qr = ascii ''00020101021229190015john_smith@devb5204599953031165802KH5910John Smith6010Phnom Penh9917001317000000000006304'' @
                 crc16CcittFalseHex (ascii ''00020101021229190015john_smith@devb5204599953031165802KH5910John Smith6010Phnom Penh9917001317000000000006304''),
          timestamp = Some (ascii ''1700000000000''), resultType = Individual, md5 = []\<rparr>"
    by (simp add: generate_def assemble_def eval_simps)
  then show ?thesis
    unfolding crc_dynamic by (simp add: ascii_simps dynamicResult_def)
qed

lemma crc_amount148572:
  "crc16CcittFalseHex (ascii ''00020101021129190015john_smith@devb52045999530311654061485725802KH5910John Smith6010Phnom Penh6304'') = ascii ''6304''"
proof -
  have ascii: "asciiOnly (ascii ''00020101021129190015john_smith@devb52045999530311654061485725802KH5910John Smith6010Phnom Penh6304'')"
    by (simp add: asciiOnly_def ascii_simps)
  have cast: "map ucast (ascii ''00020101021129190015john_smith@devb52045999530311654061485725802KH5910John Smith6010Phnom Penh6304'') =
    ([48, 48, 48, 50, 48, 49, 48, 49, 48, 50, 49, 49, 50, 57, 49, 57, 48, 48, 49, 53, 
     106, 111, 104, 110, 95, 115, 109, 105, 116, 104, 64, 100, 101, 118, 98, 53, 50, 
     48, 52, 53, 57, 57, 57, 53, 51, 48, 51, 49, 49, 54, 53, 52, 48, 54, 49, 52, 56, 
     53, 55, 50, 53, 56, 48, 50, 75, 72, 53, 57, 49, 48, 74, 111, 104, 110, 32, 83, 
     109, 105, 116, 104, 54, 48, 49, 48, 80, 104, 110, 111, 109, 32, 80, 101, 110, 
     104, 54, 51, 48, 52] :: 8 word list)"
    by (simp add: ascii_simps)
  have register: "crcBytes
    [48, 48, 48, 50, 48, 49, 48, 49, 48, 50, 49, 49, 50, 57, 49, 57, 48, 48, 49, 53, 
     106, 111, 104, 110, 95, 115, 109, 105, 116, 104, 64, 100, 101, 118, 98, 53, 50, 
     48, 52, 53, 57, 57, 57, 53, 51, 48, 51, 49, 49, 54, 53, 52, 48, 54, 49, 52, 56, 
     53, 55, 50, 53, 56, 48, 50, 75, 72, 53, 57, 49, 48, 74, 111, 104, 110, 32, 83, 
     109, 105, 116, 104, 54, 48, 49, 48, 80, 104, 110, 111, 109, 32, 80, 101, 110, 
     104, 54, 51, 48, 52] 0xFFFF = 25348"
    by code_simp
  have hex: "padStart 4 0x30 (toUpperCase (toString16 (nat 25348))) = ascii ''6304''"
    by (simp add: padStart_def toUpperCase_def upperUnit_def digitChar_def ascii_simps
        toString16.simps)
  show ?thesis
    by (simp only: crc16CcittFalseHex_def utf8Encode_ascii [OF ascii] cast register hex)
qed

lemma generate_amount148572: "generate exampleEnv amount148572 = Inr amount148572Result"
proof -
  have "generate exampleEnv amount148572 =
     Inr \<lparr>qr = ascii ''00020101021129190015john_smith@devb52045999530311654061485725802KH5910John Smith6010Phnom Penh6304'' @
                 crc16CcittFalseHex (ascii ''00020101021129190015john_smith@devb52045999530311654061485725802KH5910John Smith6010Phnom Penh6304''),
          timestamp = None, resultType = Individual, md5 = []\<rparr>"
    by (simp add: generate_def assemble_def eval_simps amount148572_def)
  then show ?thesis
    unfolding crc_amount148572 by (simp add: ascii_simps amount148572Result_def)
qed

lemma crc_amountThenUsd:
  "crc16CcittFalseHex (ascii ''00020101021129190015john_smith@devb52045999530384054031.55802KH5910John Smith6010Phnom Penh6304'') = ascii ''737E''"
proof -
  have ascii: "asciiOnly (ascii ''00020101021129190015john_smith@devb52045999530384054031.55802KH5910John Smith6010Phnom Penh6304'')"
    by (simp add: asciiOnly_def ascii_simps)
  have cast: "map ucast (ascii ''00020101021129190015john_smith@devb52045999530384054031.55802KH5910John Smith6010Phnom Penh6304'') =
    ([48, 48, 48, 50, 48, 49, 48, 49, 48, 50, 49, 49, 50, 57, 49, 57, 48, 48, 49, 53, 
     106, 111, 104, 110, 95, 115, 109, 105, 116, 104, 64, 100, 101, 118, 98, 53, 50, 
     48, 52, 53, 57, 57, 57, 53, 51, 48, 51, 56, 52, 48, 53, 52, 48, 51, 49, 46, 53, 
     53, 56, 48, 50, 75, 72, 53, 57, 49, 48, 74, 111, 104, 110, 32, 83, 109, 105, 116, 
     104, 54, 48, 49, 48, 80, 104, 110, 111, 109, 32, 80, 101, 110, 104, 54, 51, 48, 
     52] :: 8 word list)"
    by (simp add: ascii_simps)
  have register: "crcBytes
    [48, 48, 48, 50, 48, 49, 48, 49, 48, 50, 49, 49, 50, 57, 49, 57, 48, 48, 49, 53, 
     106, 111, 104, 110, 95, 115, 109, 105, 116, 104, 64, 100, 101, 118, 98, 53, 50, 
     48, 52, 53, 57, 57, 57, 53, 51, 48, 51, 56, 52, 48, 53, 52, 48, 51, 49, 46, 53, 
     53, 56, 48, 50, 75, 72, 53, 57, 49, 48, 74, 111, 104, 110, 32, 83, 109, 105, 116, 
     104, 54, 48, 49, 48, 80, 104, 110, 111, 109, 32, 80, 101, 110, 104, 54, 51, 48, 
     52] 0xFFFF = 29566"
    by code_simp
  have hex: "padStart 4 0x30 (toUpperCase (toString16 (nat 29566))) = ascii ''737E''"
    by (simp add: padStart_def toUpperCase_def upperUnit_def digitChar_def ascii_simps
        toString16.simps)
  show ?thesis
    by (simp only: crc16CcittFalseHex_def utf8Encode_ascii [OF ascii] cast register hex)
qed

lemma generate_amountThenUsd: "generate exampleEnv amountThenUsd = Inr amountThenUsdResult"
proof -
  have "generate exampleEnv amountThenUsd =
     Inr \<lparr>qr = ascii ''00020101021129190015john_smith@devb52045999530384054031.55802KH5910John Smith6010Phnom Penh6304'' @
                 crc16CcittFalseHex (ascii ''00020101021129190015john_smith@devb52045999530384054031.55802KH5910John Smith6010Phnom Penh6304''),
          timestamp = None, resultType = Individual, md5 = []\<rparr>"
    by (simp add: generate_def assemble_def eval_simps amountThenUsd_def)
  then show ?thesis
    unfolding crc_amountThenUsd by (simp add: ascii_simps amountThenUsdResult_def)
qed

lemma crc_amount1000:
  "crc16CcittFalseHex (ascii ''00020101021129190015john_smith@devb520459995303116540410005802KH5910John Smith6010Phnom Penh6304'') = ascii ''8B7E''"
proof -
  have ascii: "asciiOnly (ascii ''00020101021129190015john_smith@devb520459995303116540410005802KH5910John Smith6010Phnom Penh6304'')"
    by (simp add: asciiOnly_def ascii_simps)
  have cast: "map ucast (ascii ''00020101021129190015john_smith@devb520459995303116540410005802KH5910John Smith6010Phnom Penh6304'') =
    ([48, 48, 48, 50, 48, 49, 48, 49, 48, 50, 49, 49, 50, 57, 49, 57, 48, 48, 49, 53, 
     106, 111, 104, 110, 95, 115, 109, 105, 116, 104, 64, 100, 101, 118, 98, 53, 50, 
     48, 52, 53, 57, 57, 57, 53, 51, 48, 51, 49, 49, 54, 53, 52, 48, 52, 49, 48, 48, 
     48, 53, 56, 48, 50, 75, 72, 53, 57, 49, 48, 74, 111, 104, 110, 32, 83, 109, 105, 
     116, 104, 54, 48, 49, 48, 80, 104, 110, 111, 109, 32, 80, 101, 110, 104, 54, 51, 
     48, 52] :: 8 word list)"
    by (simp add: ascii_simps)
  have register: "crcBytes
    [48, 48, 48, 50, 48, 49, 48, 49, 48, 50, 49, 49, 50, 57, 49, 57, 48, 48, 49, 53, 
     106, 111, 104, 110, 95, 115, 109, 105, 116, 104, 64, 100, 101, 118, 98, 53, 50, 
     48, 52, 53, 57, 57, 57, 53, 51, 48, 51, 49, 49, 54, 53, 52, 48, 52, 49, 48, 48, 
     48, 53, 56, 48, 50, 75, 72, 53, 57, 49, 48, 74, 111, 104, 110, 32, 83, 109, 105, 
     116, 104, 54, 48, 49, 48, 80, 104, 110, 111, 109, 32, 80, 101, 110, 104, 54, 51, 
     48, 52] 0xFFFF = 35710"
    by code_simp
  have hex: "padStart 4 0x30 (toUpperCase (toString16 (nat 35710))) = ascii ''8B7E''"
    by (simp add: padStart_def toUpperCase_def upperUnit_def digitChar_def ascii_simps
        toString16.simps)
  show ?thesis
    by (simp only: crc16CcittFalseHex_def utf8Encode_ascii [OF ascii] cast register hex)
qed

lemma generate_amount1000: "generate exampleEnv amount1000 = Inr amount1000Result"
proof -
  have "generate exampleEnv amount1000 =
     Inr \<lparr>qr = ascii ''00020101021129190015john_smith@devb520459995303116540410005802KH5910John Smith6010Phnom Penh6304'' @
                 crc16CcittFalseHex (ascii ''00020101021129190015john_smith@devb520459995303116540410005802KH5910John Smith6010Phnom Penh6304''),
          timestamp = None, resultType = Individual, md5 = []\<rparr>"
    by (simp add: generate_def assemble_def eval_simps amount1000_def)
  then show ?thesis
    unfolding crc_amount1000 by (simp add: ascii_simps amount1000Result_def)
qed

lemma generate_longIdentity:
  "generate exampleEnv longIdentity = Inl (ValueTooLong (ascii ''29'') 108)"
  by (simp add: generate_def assemble_def eval_simps longIdentity_def setAcquiringBank_def
      setAccountInformation_def)

lemma generate_manyLabels:
  "generate exampleEnv manyLabels = Inl (ValueTooLong (ascii ''62'') 145)"
  by (simp add: generate_def assemble_def eval_simps manyLabels_def setPurposeOfTransaction_def
      setTerminalLabel_def setStoreLabel_def setMobileNumber_def setBillNumber_def)

lemmas builder_simps = johnSmith_def staticJohn_def newGenerator_def setStatic_def
  setBakongAccountId_def setMerchantName_def setMerchantId_def setAcquiringBank_def

lemmas amount_simps = setAmount_def normalizeAmount_def normalizeAmountString_def trim_def
  isSpace_def isNumeric_def isDigit_def stripZeros_def stripDot_def Let_def amountText_def

lemma setAmount_stores:
  assumes "setAmount e v g0 = Inr g1"
  shows "amount g1 = Some (normalizeAmountString e (amountText v) (currency g0))"
  using assms
  by (auto simp: setAmount_def normalizeAmount_def amountText_def Let_def
      split: sum.splits amountArg.splits if_splits)

section \<open>Generated payloads and the verifier\<close>

subsection \<open>The checksum has four characters\<close>

lemma mask_range: "0 \<le> (x::int) AND 0xFFFF \<and> x AND 0xFFFF \<le> 0xFFFF"
  by (simp add: AND_upper2)

lemma crcRounds_in_range:
  "0 \<le> c \<and> c \<le> 0xFFFF \<Longrightarrow> 0 \<le> crcRounds k c \<and> crcRounds k c \<le> 0xFFFF"
proof (induction k arbitrary: c)
  case 0
  then show ?case by simp
next
  case (Suc k)
  show ?case
    unfolding crcRounds.simps by (rule Suc.IH) (rule mask_range)
qed

lemma crcRounds_8_range: "0 \<le> crcRounds 8 c \<and> crcRounds 8 c \<le> 0xFFFF"
proof -
  have "crcRounds 8 c = crcRounds (Suc 7) c" by simp
  also have "\<dots> = crcRounds 7
     ((if c AND 0x8000 \<noteq> 0 then push_bit 1 c XOR 0x1021 else push_bit 1 c) AND 0xFFFF)"
    by (rule crcRounds.simps)
  finally show ?thesis
    using crcRounds_in_range [OF mask_range] by simp
qed

lemma crcBytes_range:
  "0 \<le> c \<and> c \<le> 0xFFFF \<Longrightarrow> 0 \<le> crcBytes bs c \<and> crcBytes bs c \<le> 0xFFFF"
proof (induction bs arbitrary: c)
  case Nil
  then show ?case by simp
next
  case (Cons b bs)
  show ?case
    unfolding crcBytes.simps by (rule Cons.IH) (rule crcRounds_8_range)
qed

lemma length_toString16: "0 < k \<Longrightarrow> n < 16 ^ k \<Longrightarrow> length (toString16 n) \<le> k"
proof (induction k arbitrary: n)
  case 0
  then show ?case by simp
next
  case (Suc k)
  show ?case
  proof (cases "n < 16")
    case True
    then show ?thesis by (subst toString16.simps) simp
  next
    case False
    with Suc.prems have k: "0 < k" by (cases k) simp_all
    from Suc.prems have "n div 16 < 16 ^ k" by (simp add: less_mult_imp_div_less mult.commute)
    from Suc.IH [OF k this] False show ?thesis by (subst toString16.simps) simp
  qed
qed

lemma length_crc16: "length (crc16CcittFalseHex s) = 4"
proof -
  let ?n = "nat (crcBytes (utf8Encode s) 0xFFFF)"
  have "0 \<le> crcBytes (utf8Encode s) 0xFFFF \<and> crcBytes (utf8Encode s) 0xFFFF \<le> 0xFFFF"
    by (rule crcBytes_range) simp
  then have "?n < 65536" by linarith
  then have "?n < 16 ^ 4" by simp
  from length_toString16 [OF _ this] have "length (toString16 ?n) \<le> 4" by simp
  then show ?thesis
    by (simp add: crc16CcittFalseHex_def padStart_def toUpperCase_def)
qed

subsection \<open>The last occurrence\<close>

lemma lastIndexFrom_none:
  "(\<And>m. m \<le> length s \<Longrightarrow> take (length p) (drop m s) \<noteq> p) \<Longrightarrow> lastIndexFrom p s i = None"
proof (induction s arbitrary: i)
  case Nil
  from Nil [of 0] show ?case by auto
next
  case (Cons c s)
  have "lastIndexFrom p s (Suc i) = None"
  proof (rule Cons.IH)
    fix m assume "m \<le> length s"
    with Cons.prems [of "Suc m"] show "take (length p) (drop m s) \<noteq> p" by simp
  qed
  moreover from Cons.prems [of 0] have "take (length p) (c # s) \<noteq> p" by simp
  ultimately show ?case by simp
qed

lemma lastIndexFrom_last:
  assumes "k \<le> length s" and "take (length p) (drop k s) = p"
    and "\<And>m. k < m \<Longrightarrow> m \<le> length s \<Longrightarrow> take (length p) (drop m s) \<noteq> p"
  shows "lastIndexFrom p s i = Some (i + k)"
  using assms
proof (induction s arbitrary: i k)
  case Nil
  then show ?case by auto
next
  case (Cons c s)
  show ?case
  proof (cases k)
    case 0
    have "lastIndexFrom p s (Suc i) = None"
    proof (rule lastIndexFrom_none)
      fix m assume "m \<le> length s"
      with Cons.prems(3) [of "Suc m"] 0 show "take (length p) (drop m s) \<noteq> p" by simp
    qed
    with Cons.prems(2) 0 show ?thesis by simp
  next
    case (Suc k')
    have "lastIndexFrom p s (Suc i) = Some (Suc i + k')"
    proof (rule Cons.IH)
      from Cons.prems(1) Suc show "k' \<le> length s" by simp
      from Cons.prems(2) Suc show "take (length p) (drop k' s) = p" by simp
      fix m assume "k' < m" "m \<le> length s"
      with Cons.prems(3) [of "Suc m"] Suc show "take (length p) (drop m s) \<noteq> p" by simp
    qed
    with Suc show ?thesis by simp
  qed
qed

lemma drop_prefix_checksum:
  assumes "length c = 4" and "0 < d" and "d \<le> 8"
  shows "take 4 (drop d (ascii ''6304'' @ c)) = ascii ''6304'' \<longleftrightarrow> d = 4 \<and> c = ascii ''6304''"
proof -
  from assms(1) obtain c1 c2 c3 c4 where c: "c = [c1, c2, c3, c4]"
    by (cases c; cases "tl c"; cases "tl (tl c)"; cases "tl (tl (tl c))") auto
  from assms(2,3) have "d \<in> {1, 2, 3, 4, 5, 6, 7, 8}" by auto
  then show ?thesis
    by (auto simp: c ascii_simps)
qed

lemma lastIndexOf_payload:
  assumes "length c = 4"
  shows "lastIndexOf (p @ ascii ''6304'' @ c) (ascii ''6304'') =
         Some (if c = ascii ''6304'' then length p + 4 else length p)"
proof -
  let ?k = "ascii ''6304''"
  let ?s = "p @ ?k @ c"
  have lk: "length ?k = 4" by (simp add: ascii_simps)
  have above: "take (length ?k) (drop m ?s) = ?k \<longleftrightarrow> m = length p + 4 \<and> c = ?k"
    if "length p < m" "m \<le> length ?s" for m
  proof -
    from that assms lk have d: "0 < m - length p" "m - length p \<le> 8" by simp_all
    from that have "drop m ?s = drop (m - length p) (?k @ c)" by simp
    with drop_prefix_checksum [OF assms d] lk that(1) show ?thesis by auto
  qed
  show ?thesis
  proof (cases "c = ?k")
    case True
    have "lastIndexFrom ?k ?s 0 = Some (0 + (length p + 4))"
    proof (rule lastIndexFrom_last)
      show "length p + 4 \<le> length ?s" using lk by simp
      show "take (length ?k) (drop (length p + 4) ?s) = ?k"
        using above [of "length p + 4"] True assms lk by simp
      fix m assume "length p + 4 < m" "m \<le> length ?s"
      with above [of m] show "take (length ?k) (drop m ?s) \<noteq> ?k" by simp
    qed
    with True show ?thesis by (simp add: lastIndexOf_def)
  next
    case False
    have "lastIndexFrom ?k ?s 0 = Some (0 + length p)"
    proof (rule lastIndexFrom_last)
      show "length p \<le> length ?s" by simp
      show "take (length ?k) (drop (length p) ?s) = ?k" using lk by simp
      fix m assume "length p < m" "m \<le> length ?s"
      with above [of m] False show "take (length ?k) (drop m ?s) \<noteq> ?k" by simp
    qed
    with False show ?thesis by (simp add: lastIndexOf_def)
  qed
qed

lemma verify_payload:
  "verify (p @ ascii ''6304'' @ crc16CcittFalseHex (p @ ascii ''6304'')) \<longleftrightarrow>
   crc16CcittFalseHex (p @ ascii ''6304'') \<noteq> ascii ''6304''"
proof -
  let ?k = "ascii ''6304''"
  let ?c = "crc16CcittFalseHex (p @ ?k)"
  have lk: "length ?k = 4" by (simp add: ascii_simps)
  note lc = length_crc16 [of "p @ ?k"]
  show ?thesis
  proof (cases "?c = ?k")
    case True
    have "sliceStr (p @ ?k @ ?c) (length p + 4 + 4) (length p + 4 + 8) = []"
      using lk lc by (simp add: sliceStr_def)
    with True lastIndexOf_payload [OF lc, of p] show ?thesis
      by (simp add: verify_def verifyCrc_def Let_def)
  next
    case False
    have 1: "sliceStr (p @ ?k @ ?c) (length p + 4) (length p + 8) = ?c"
      using lk lc by (simp add: sliceStr_def)
    have 2: "sliceStr (p @ ?k @ ?c) 0 (length p + 4) = p @ ?k"
      using lk by (simp add: sliceStr_def)
    from False lastIndexOf_payload [OF lc, of p] lc show ?thesis
      by (simp add: verify_def verifyCrc_def Let_def 1 2)
  qed
qed

text \<open>
  C1 fails on the code for a payload whose checksum is \<open>6304\<close>. With the amount 148572
  the checksum of the payload is \<open>6304\<close>; \<open>lastIndexOf\<close> then finds the checksum itself, no
  character follows it, and \<open>verify\<close> returns false for the generated payload.
\<close>

theorem checksum_6304_not_verified:
  "setAmount exampleEnv (AmountString (ascii ''148572'')) staticJohn = Inr amount148572 \<and>
   generate exampleEnv amount148572 = Inr amount148572Result \<and>
   qr amount148572Result =
     ascii ''00020101021129190015john_smith@devb52045999530311654061485725802KH5910John Smith6010Phnom Penh63046304'' \<and>
   \<not> verify (qr amount148572Result)"
proof -
  have 1: "setAmount exampleEnv (AmountString (ascii ''148572'')) staticJohn = Inr amount148572"
    by (simp add: amount_simps amount148572_def builder_simps ascii_simps)
  have 2: "qr amount148572Result =
     ascii ''00020101021129190015john_smith@devb52045999530311654061485725802KH5910John Smith6010Phnom Penh63046304''"
    by (simp add: amount148572Result_def)
  have 3: "\<not> verify (qr amount148572Result)"
    by (simp add: amount148572Result_def verify_def verifyCrc_def lastIndexOf_def sliceStr_def
        ascii_simps)
  from 1 2 3 generate_amount148572 show ?thesis by blast
qed

text \<open>
  The round trip as the code has it: whenever \<open>generate\<close> returns, \<open>verify\<close> accepts the
  payload exactly when its checksum, the last four characters, is not \<open>6304\<close>.
\<close>

theorem generate_verify:
  assumes "generate e g = Inr r"
  shows "verify (qr r) \<longleftrightarrow> sliceStr (qr r) (length (qr r) - 4) (length (qr r)) \<noteq> ascii ''6304''"
proof -
  let ?p = "encodedFields (topFields e g)"
  let ?c = "crc16CcittFalseHex (?p @ ascii ''6304'')"
  from generate_success(2) [OF assms] have q: "qr r = ?p @ ascii ''6304'' @ ?c" .
  have "sliceStr (qr r) (length (qr r) - 4) (length (qr r)) = ?c"
    using length_crc16 [of "?p @ ascii ''6304''"] by (simp add: q sliceStr_def)
  with verify_payload [of ?p] q show ?thesis by simp
qed

theorem generate_verify_witness:
  "generate exampleEnv staticJohn = Inr staticResult \<and>
   sliceStr (qr staticResult) (length (qr staticResult) - 4) (length (qr staticResult)) =
     ascii ''6BFA'' \<and>
   verify (qr staticResult)"
proof -
  have "sliceStr (qr staticResult) (length (qr staticResult) - 4) (length (qr staticResult)) =
     ascii ''6BFA''"
    by (simp add: staticResult_def sliceStr_def ascii_simps)
  with generate_verify [OF generate_static] generate_static show ?thesis
    by (simp add: ascii_simps)
qed

section \<open>Errors of the assembly\<close>

text \<open>
  C2, as the code has it. With the clock reading in the range of JavaScript time values,
  \<open>generate\<close> throws "TLV value too long" only for the identity template (tag \<open>29\<close> or
  \<open>30\<close>), the amount (tag \<open>54\<close>, which is not truncated) and the additional-data template
  (tag \<open>62\<close>), and then the value is longer than 99 bytes. No truncated free-text field,
  neither the alternate-language template (tag \<open>64\<close>) nor the timestamp template makes
  it throw.
\<close>

theorem valueTooLong_reachable_tags:
  assumes "\<bar>now e\<bar> \<le> 8640000000000000"
    and "generate e g = Inl (ValueTooLong tag n)"
  shows "tag \<in> {ascii ''29'', ascii ''30'', ascii ''54'', ascii ''62''} \<and> 99 < n"
  using assms(2) clock_short [OF assms(1)] unfolding generate_eq
  by (auto simp: identityTag_def split: if_splits)

theorem valueTooLong_reachable_tags_witness:
  "\<bar>now exampleEnv\<bar> \<le> 8640000000000000 \<and>
   generate exampleEnv longIdentity = Inl (ValueTooLong (ascii ''29'') 108) \<and>
   ascii ''29'' \<in> {ascii ''29'', ascii ''30'', ascii ''54'', ascii ''62''} \<and> (99::nat) < 108"
proof -
  have c: "\<bar>now exampleEnv\<bar> \<le> 8640000000000000" by (simp add: exampleEnv_def)
  from valueTooLong_reachable_tags [OF c generate_longIdentity] c generate_longIdentity
  show ?thesis by simp
qed

text \<open>
  C2, as the claim states it, fails: with an account id, extra account information and a
  bank of 32 bytes each, all within their budgets, the content of the individual
  identity template is 3 * 36 = 108 bytes and encoding tag \<open>29\<close> throws.
\<close>

theorem valueTooLong_identity_template:
  "truthy (bakongAccountId longIdentity) \<and> truthy (merchantName longIdentity) \<and>
   merchantType longIdentity = Individual \<and>
   generate exampleEnv longIdentity = Inl (ValueTooLong (ascii ''29'') 108)"
  using generate_longIdentity
  by (simp add: longIdentity_def truthy_def setAcquiringBank_def setAccountInformation_def
      setMerchantName_def setBakongAccountId_def newGenerator_def ascii_simps)

section \<open>The amount field\<close>

text \<open>
  C4 fails on the code when the currency is chosen after the amount. \<open>setAmount\<close> formats
  its argument for the currency the generator has at that moment, and neither
  \<open>setCurrency\<close> nor \<open>generate\<close> formats the stored text again: \<open>setAmount("1.50")\<close> under
  the initial currency KHR stores \<open>1.5\<close>, and after \<open>setCurrency("USD")\<close> the payload has
  the currency \<open>840\<close> with the amount \<open>1.5\<close>, which has one decimal place where the
  formatting for USD gives two.
\<close>

theorem amount_not_reformatted:
  "setAmount exampleEnv (AmountString (ascii ''1.50'')) staticJohn =
     Inr (staticJohn\<lparr>amount := Some (ascii ''1.5'')\<rparr>) \<and>
   setCurrency (ascii ''USD'') (staticJohn\<lparr>amount := Some (ascii ''1.5'')\<rparr>) =
     Inr amountThenUsd \<and>
   currency amountThenUsd = USD \<and>
   generate exampleEnv amountThenUsd = Inr amountThenUsdResult \<and>
   encodeFields
     [(ascii ''00'', ascii ''01''), (ascii ''01'', ascii ''11''),
      (ascii ''29'', ascii ''0015john_smith@devb''), (ascii ''52'', ascii ''5999''),
      (ascii ''53'', ascii ''840''), (ascii ''54'', ascii ''1.5''),
      (ascii ''58'', ascii ''KH''), (ascii ''59'', ascii ''John Smith''),
      (ascii ''60'', ascii ''Phnom Penh''), (ascii ''63'', ascii ''737E'')] =
     Inr (qr amountThenUsdResult) \<and>
   \<not> twoDecimalPlaces (ascii ''1.5'')"
proof -
  have 1: "setAmount exampleEnv (AmountString (ascii ''1.50'')) staticJohn =
     Inr (staticJohn\<lparr>amount := Some (ascii ''1.5'')\<rparr>)"
    by (simp add: amount_simps builder_simps ascii_simps)
  have 2: "setCurrency (ascii ''USD'') (staticJohn\<lparr>amount := Some (ascii ''1.5'')\<rparr>) =
     Inr amountThenUsd"
    by (simp add: setCurrency_def toUpperCase_def upperUnit_def amountThenUsd_def ascii_simps
        Let_def)
  have 3: "currency amountThenUsd = USD"
    by (simp add: amountThenUsd_def)
  have 4: "encodeFields
     [(ascii ''00'', ascii ''01''), (ascii ''01'', ascii ''11''),
      (ascii ''29'', ascii ''0015john_smith@devb''), (ascii ''52'', ascii ''5999''),
      (ascii ''53'', ascii ''840''), (ascii ''54'', ascii ''1.5''),
      (ascii ''58'', ascii ''KH''), (ascii ''59'', ascii ''John Smith''),
      (ascii ''60'', ascii ''Phnom Penh''), (ascii ''63'', ascii ''737E'')] =
     Inr (qr amountThenUsdResult)"
    by (simp add: eval_simps amountThenUsdResult_def)
  have 5: "\<not> twoDecimalPlaces (ascii ''1.5'')"
    by (simp add: twoDecimalPlaces_def isDigit_def ascii_simps)
  from 1 2 3 4 5 generate_amountThenUsd show ?thesis by blast
qed

text \<open>
  The amount field when \<open>setAmount\<close> is called while the currency is KHR: the payload has
  exactly one field of tag \<open>54\<close>, and its value is the argument's text as it is when it
  has no point, otherwise the text without its trailing zeros and then without a trailing
  point, or \<open>0\<close> when nothing is left. The amount \<open>1000\<close> is written as \<open>1000\<close>.
\<close>

theorem amount_field_khr:
  assumes "setAmount e v g0 = Inr g1" and "currency g0 = KHR"
    and "amount g = amount g1" and "generate e g = Inr r"
  shows "\<exists>pre post body.
           encodeFields
             (pre @
              [(ascii ''54'',
                if 0x2E \<notin> set (amountText v) then amountText v
                else if stripDot (stripZeros (amountText v)) \<noteq> []
                then stripDot (stripZeros (amountText v)) else ascii ''0'')] @
              post) = Inr body \<and>
           ascii ''54'' \<notin> fst ` set pre \<and> ascii ''54'' \<notin> fst ` set post \<and>
           qr r = body @ ascii ''6304'' @ crc16CcittFalseHex (body @ ascii ''6304'')"
proof -
  let ?a = "if 0x2E \<notin> set (amountText v) then amountText v
            else if stripDot (stripZeros (amountText v)) \<noteq> []
            then stripDot (stripZeros (amountText v)) else ascii ''0''"
  let ?post = "tailFields g @
     (if isStatic g then [] else [(ascii ''99'', encoded (ascii ''00'') (stringOfInt (now e)))])"
  have "normalizeAmountString e (amountText v) (currency g0) = ?a"
    using assms(2) by (simp add: normalizeAmountString_def Let_def)
  with setAmount_stores [OF assms(1)] have a: "amount g1 = Some ?a" by simp
  with assms(3) have t: "topFields e g = headFields g @ [(ascii ''54'', ?a)] @ ?post"
    by (simp add: topFields_def bodyFields_def)
  have p: "ascii ''54'' \<notin> fst ` set ?post"
    using no_amount_tag(2) [of g] by (auto simp: ascii_simps)
  note s = generate_success [OF assms(4)]
  from s(1,2) p no_amount_tag(1) [of g] show ?thesis
    unfolding t
    by (intro exI [of _ "headFields g"] exI [of _ ?post]
        exI [of _ "encodedFields (headFields g @ [(ascii ''54'', ?a)] @ ?post)"]) simp
qed

theorem amount_field_khr_witness:
  "setAmount exampleEnv (AmountString (ascii ''1000'')) staticJohn = Inr amount1000 \<and>
   currency staticJohn = KHR \<and>
   amount amount1000 = amount amount1000 \<and>
   generate exampleEnv amount1000 = Inr amount1000Result \<and>
   (\<exists>pre post body.
      encodeFields (pre @ [(ascii ''54'', ascii ''1000'')] @ post) = Inr body \<and>
      ascii ''54'' \<notin> fst ` set pre \<and> ascii ''54'' \<notin> fst ` set post \<and>
      qr amount1000Result = body @ ascii ''6304'' @ crc16CcittFalseHex (body @ ascii ''6304''))"
proof -
  have s: "setAmount exampleEnv (AmountString (ascii ''1000'')) staticJohn = Inr amount1000"
    by (simp add: amount_simps amount1000_def builder_simps ascii_simps)
  have c: "currency staticJohn = KHR"
    by (simp add: builder_simps)
  have t: "amountText (AmountString (ascii ''1000'')) = ascii ''1000''"
    "0x2E \<notin> set (ascii ''1000'')"
    by (simp_all add: ascii_simps amount_simps)
  have a: "(if 0x2E \<notin> set (amountText (AmountString (ascii ''1000'')))
            then amountText (AmountString (ascii ''1000''))
            else if stripDot (stripZeros (amountText (AmountString (ascii ''1000'')))) \<noteq> []
            then stripDot (stripZeros (amountText (AmountString (ascii ''1000''))))
            else ascii ''0'') = ascii ''1000''"
    using t by (simp only: if_True simp_thms)
  from amount_field_khr [OF s c refl generate_amount1000, unfolded a] s c generate_amount1000
  show ?thesis by blast
qed

text \<open>
  C6, as the code has it. With an account id and a display name set, a merchant
  configuration with no merchant id fails with "MerchantID is required", and one with a
  merchant id and no acquiring bank fails with "AcquiringBank is required". An individual
  configuration never fails for a missing field; with neither merchant id nor bank it
  returns a result whenever the amount and the content of the additional-data template
  are at most 99 bytes long (the clock reading in the range of JavaScript time values).
\<close>

theorem generate_required_fields:
  assumes "truthy (bakongAccountId g)" and "truthy (merchantName g)"
  shows "(merchantType g = Merchant \<and> \<not> truthy (merchantId g) \<longrightarrow>
            generate e g = Inl (Required MerchantID)) \<and>
         (merchantType g = Merchant \<and> truthy (merchantId g) \<and> \<not> truthy (acquiringBank g) \<longrightarrow>
            generate e g = Inl (Required AcquiringBank)) \<and>
         (merchantType g = Individual \<longrightarrow> (\<forall>f. generate e g \<noteq> Inl (Required f))) \<and>
         (merchantType g = Individual \<and> \<not> truthy (merchantId g) \<and> \<not> truthy (acquiringBank g) \<and>
          utf8ByteLength (valueOf (amount g)) \<le> 99 \<and>
          utf8ByteLength (encodedFields (additionalFields g)) \<le> 99 \<and>
          \<bar>now e\<bar> \<le> 8640000000000000 \<longrightarrow>
            (\<exists>r. generate e g = Inr r))"
proof (intro conjI impI)
  assume "merchantType g = Merchant \<and> \<not> truthy (merchantId g)"
  with assms show "generate e g = Inl (Required MerchantID)"
    by (simp add: generate_def)
next
  assume "merchantType g = Merchant \<and> truthy (merchantId g) \<and> \<not> truthy (acquiringBank g)"
  with assms show "generate e g = Inl (Required AcquiringBank)"
    by (simp add: generate_def)
next
  assume "merchantType g = Individual"
  with assms show "\<forall>f. generate e g \<noteq> Inl (Required f)"
    unfolding generate_eq by simp
next
  assume a: "merchantType g = Individual \<and> \<not> truthy (merchantId g) \<and> \<not> truthy (acquiringBank g) \<and>
          utf8ByteLength (valueOf (amount g)) \<le> 99 \<and>
          utf8ByteLength (encodedFields (additionalFields g)) \<le> 99 \<and>
          \<bar>now e\<bar> \<le> 8640000000000000"
  then have "utf8ByteLength (encodedFields (identityFields g)) \<le> 72"
    by (intro utf8ByteLength_individual) simp_all
  with a assms clock_short [of e] show "\<exists>r. generate e g = Inr r"
    unfolding generate_eq by simp
qed

theorem generate_required_fields_witness:
  "(truthy (bakongAccountId merchantNoId) \<and> truthy (merchantName merchantNoId) \<and>
    merchantType merchantNoId = Merchant \<and> \<not> truthy (merchantId merchantNoId) \<and>
    generate exampleEnv merchantNoId = Inl (Required MerchantID)) \<and>
   (truthy (bakongAccountId merchantNoBank) \<and> truthy (merchantName merchantNoBank) \<and>
    merchantType merchantNoBank = Merchant \<and> truthy (merchantId merchantNoBank) \<and>
    \<not> truthy (acquiringBank merchantNoBank) \<and>
    generate exampleEnv merchantNoBank = Inl (Required AcquiringBank)) \<and>
   (truthy (bakongAccountId staticJohn) \<and> truthy (merchantName staticJohn) \<and>
    merchantType staticJohn = Individual \<and> \<not> truthy (merchantId staticJohn) \<and>
    \<not> truthy (acquiringBank staticJohn) \<and>
    utf8ByteLength (valueOf (amount staticJohn)) \<le> 99 \<and>
    utf8ByteLength (encodedFields (additionalFields staticJohn)) \<le> 99 \<and>
    \<bar>now exampleEnv\<bar> \<le> 8640000000000000 \<and>
    (\<exists>r. generate exampleEnv staticJohn = Inr r))"
proof -
  have a: "truthy (bakongAccountId merchantNoId)" "truthy (merchantName merchantNoId)"
    "merchantType merchantNoId = Merchant" "\<not> truthy (merchantId merchantNoId)"
    by (simp_all add: merchantNoId_def builder_simps truthy_def ascii_simps)
  have b: "truthy (bakongAccountId merchantNoBank)" "truthy (merchantName merchantNoBank)"
    "merchantType merchantNoBank = Merchant" "truthy (merchantId merchantNoBank)"
    "\<not> truthy (acquiringBank merchantNoBank)"
    by (simp_all add: merchantNoBank_def builder_simps truthy_def ascii_simps)
  have c: "truthy (bakongAccountId staticJohn)" "truthy (merchantName staticJohn)"
    "merchantType staticJohn = Individual" "\<not> truthy (merchantId staticJohn)"
    "\<not> truthy (acquiringBank staticJohn)"
    "utf8ByteLength (valueOf (amount staticJohn)) \<le> 99"
    "utf8ByteLength (encodedFields (additionalFields staticJohn)) \<le> 99"
    "\<bar>now exampleEnv\<bar> \<le> 8640000000000000"
    by (simp_all add: builder_simps truthy_def ascii_simps valueOf_def utf8ByteLength_Nil
        additionalFields_def truncOpt_def optField_def encodedFields_simps exampleEnv_def)
  from generate_required_fields [OF a(1,2), of exampleEnv]
    generate_required_fields [OF b(1,2), of exampleEnv]
    generate_required_fields [OF c(1,2), of exampleEnv] a b c
  show ?thesis by blast
qed

text \<open>
  C6, as the claim states it, fails: an individual configuration with account id and
  display name, neither merchant id nor bank, and five additional-data labels of 25
  bytes each does not return; the content of template \<open>62\<close> is 5 * 29 = 145 bytes.
\<close>

theorem generate_individual_too_long:
  "truthy (bakongAccountId manyLabels) \<and> truthy (merchantName manyLabels) \<and>
   merchantType manyLabels = Individual \<and> \<not> truthy (merchantId manyLabels) \<and>
   \<not> truthy (acquiringBank manyLabels) \<and>
   generate exampleEnv manyLabels = Inl (ValueTooLong (ascii ''62'') 145)"
  using generate_manyLabels
  by (simp add: manyLabels_def builder_simps truthy_def ascii_simps setPurposeOfTransaction_def
      setTerminalLabel_def setStoreLabel_def setMobileNumber_def setBillNumber_def)

text \<open>
  C7. Whenever \<open>generate\<close> returns, the payload is the encoding of a sequence of top-level
  fields followed by the checksum field. In static mode the returned timestamp is null
  and no field of the sequence has tag \<open>99\<close>. In dynamic mode the sequence ends with its
  only field of tag \<open>99\<close>, whose value is the encoding of the single sub-field \<open>00\<close> that
  holds the returned timestamp, the decimal string of the clock reading.
\<close>

theorem generate_timestamp_field:
  assumes "generate e g = Inr r"
  shows "\<exists>fs body.
           encodeFields fs = Inr body \<and>
           qr r = body @ ascii ''6304'' @ crc16CcittFalseHex (body @ ascii ''6304'') \<and>
           (if isStatic g then timestamp r = None \<and> ascii ''99'' \<notin> fst ` set fs
            else \<exists>fs' ts t99.
                   fs = fs' @ [(ascii ''99'', t99)] \<and> ascii ''99'' \<notin> fst ` set fs' \<and>
                   encodeFields [(ascii ''00'', ts)] = Inr t99 \<and>
                   timestamp r = Some ts \<and> ts = stringOfInt (now e))"
proof -
  note s = generate_success [OF assms]
  show ?thesis
  proof (cases "isStatic g")
    case True
    then have "topFields e g = bodyFields g" by (simp add: topFields_def)
    with s(1,2,3) True no_timestamp_tag [of g] show ?thesis
      by (intro exI [of _ "topFields e g"] exI [of _ "encodedFields (topFields e g)"]) simp
  next
    case False
    let ?ts = "stringOfInt (now e)"
    from False
    have t: "topFields e g = bodyFields g @ [(ascii ''99'', encoded (ascii ''00'') ?ts)]"
      by (simp add: topFields_def)
    from s(4) [OF False] have "encodeFields [(ascii ''00'', ?ts)] = Inr (encoded (ascii ''00'') ?ts)"
      by (simp add: tlv_eq twoDigits_literals bindE_simps)
    with s(1,2,3) False t no_timestamp_tag [of g] show ?thesis
      by (intro exI [of _ "topFields e g"] exI [of _ "encodedFields (topFields e g)"]) simp
  qed
qed

theorem generate_timestamp_field_witness:
  "(generate exampleEnv staticJohn = Inr staticResult \<and> isStatic staticJohn \<and>
    timestamp staticResult = None \<and>
    (\<exists>fs body. encodeFields fs = Inr body \<and>
       qr staticResult = body @ ascii ''6304'' @ crc16CcittFalseHex (body @ ascii ''6304'') \<and>
       ascii ''99'' \<notin> fst ` set fs)) \<and>
   (generate exampleEnv johnSmith = Inr dynamicResult \<and> \<not> isStatic johnSmith \<and>
    timestamp dynamicResult = Some (ascii ''1700000000000'') \<and>
    (\<exists>fs' t99 body. encodeFields (fs' @ [(ascii ''99'', t99)]) = Inr body \<and>
       qr dynamicResult = body @ ascii ''6304'' @ crc16CcittFalseHex (body @ ascii ''6304'') \<and>
       ascii ''99'' \<notin> fst ` set fs' \<and>
       encodeFields [(ascii ''00'', ascii ''1700000000000'')] = Inr t99))"
proof -
  have s: "isStatic staticJohn" and d: "\<not> isStatic johnSmith"
    by (simp_all add: staticJohn_def johnSmith_def setStatic_def setMerchantName_def
        setBakongAccountId_def newGenerator_def)
  have n: "stringOfInt (now exampleEnv) = ascii ''1700000000000''"
    by (simp add: exampleEnv_def stringOfInt_def decimal.simps digitChar_def ascii_simps)
  from generate_timestamp_field [OF generate_static] s
  have 1: "timestamp staticResult = None \<and>
    (\<exists>fs body. encodeFields fs = Inr body \<and>
       qr staticResult = body @ ascii ''6304'' @ crc16CcittFalseHex (body @ ascii ''6304'') \<and>
       ascii ''99'' \<notin> fst ` set fs)"
    by auto
  from generate_timestamp_field [OF generate_dynamic] d n
  have 2: "timestamp dynamicResult = Some (ascii ''1700000000000'') \<and>
    (\<exists>fs' t99 body. encodeFields (fs' @ [(ascii ''99'', t99)]) = Inr body \<and>
       qr dynamicResult = body @ ascii ''6304'' @ crc16CcittFalseHex (body @ ascii ''6304'') \<and>
       ascii ''99'' \<notin> fst ` set fs' \<and>
       encodeFields [(ascii ''00'', ascii ''1700000000000'')] = Inr t99)"
    by auto
  from 1 2 s d generate_static generate_dynamic show ?thesis by blast
qed

section \<open>Decoding a generated payload\<close>

lemma numberOfDigits_padStart:
  assumes "n \<le> 99"
  shows "numberOfDigits (padStart 2 0x30 (decimal n)) = n"
proof -
  have d: "unat (digitChar k) - 48 = k" if "k < 10" for k
  proof -
    from that have "k \<in> {0, 1, 2, 3, 4, 5, 6, 7, 8, 9}" by auto
    then show ?thesis by (auto simp: digitChar_def)
  qed
  from assms have "n div 10 < 10" "n mod 10 < 10" by simp_all
  with d [of "n div 10"] d [of "n mod 10"] show ?thesis
    by (simp add: padStart_decimal_eq [OF assms] numberOfDigits_def)
qed

lemma asciiOnly_append: "asciiOnly (a @ b) \<longleftrightarrow> asciiOnly a \<and> asciiOnly b"
  by (simp add: asciiOnly_def)

lemma flatten_triples:
  "flatten (map asTriple fs) = encodedFields fs"
  by (induction fs) (auto simp: flatten_def encodedFields_def asTriple_def encoded_def)

lemma recordFields_triples: "recordFields out (map asTriple fs) = storeFields out fs"
  by (induction fs arbitrary: out)
    (auto simp: recordFields_def storeFields_def asTriple_def)

lemma complete_triples:
  assumes "list_all (\<lambda>f. twoDigits (fst f) \<and> utf8ByteLength (snd f) \<le> 99) fs"
    and "asciiOnly (encodedFields fs)"
  shows "list_all completeField (map asTriple fs)"
  using assms
proof (induction fs)
  case Nil
  then show ?case by simp
next
  case (Cons f fs)
  from Cons.prems have f: "twoDigits (fst f)" "utf8ByteLength (snd f) \<le> 99"
    and a: "asciiOnly (snd f)" "asciiOnly (encodedFields fs)"
    and r: "list_all (\<lambda>f. twoDigits (fst f) \<and> utf8ByteLength (snd f) \<le> 99) fs"
    by (cases f; simp add: encodedFields_simps encoded_def asciiOnly_append)+
  from f a(1) padStart_decimal [OF f(2)] numberOfDigits_padStart [OF f(2)]
  have "completeField (asTriple f)"
    by (simp add: completeField_def asTriple_def twoDigits_def utf8ByteLength_ascii)
  with Cons.IH [OF r a(2)] show ?case by simp
qed

lemma decodeTlv_encodedFields:
  assumes "list_all (\<lambda>f. twoDigits (fst f) \<and> utf8ByteLength (snd f) \<le> 99) fs"
    and "asciiOnly (encodedFields fs)"
  shows "decodeTlv (encodedFields fs) = Some (storeFields Map.empty fs)"
proof -
  let ?code = "encodedFields fs"
  have "decodeLoop ([] @ flatten (map asTriple fs) @ []) (length ([]::jstring)) Map.empty =
        decodeLoop ([] @ flatten (map asTriple fs) @ [])
          (length ([]::jstring) + length (flatten (map asTriple fs)))
          (recordFields Map.empty (map asTriple fs))"
    by (rule decodeLoop_fields [OF complete_triples [OF assms]])
  then have "decodeTlv ?code = decodeLoop ?code (length ?code) (storeFields Map.empty fs)"
    by (simp add: decodeTlv_def flatten_triples recordFields_triples)
  also have "\<dots> = Some (storeFields Map.empty fs)"
    by (rule decodeLoop_stop) simp
  finally show ?thesis .
qed

lemma encodeFields_append:
  "encodeFields fs = Inr a \<Longrightarrow> encodeFields gs = Inr b \<Longrightarrow> encodeFields (fs @ gs) = Inr (a @ b)"
  by (induction fs arbitrary: a) (auto simp: bindE_def split: sum.splits)

lemma encodeFields_fields:
  "encodeFields fs = Inr s \<Longrightarrow>
   list_all (\<lambda>f. twoDigits (fst f) \<and> utf8ByteLength (snd f) \<le> 99) fs \<and> s = encodedFields fs"
proof (induction fs arbitrary: s)
  case Nil
  then show ?case by (simp add: encodedFields_simps)
next
  case (Cons f fs)
  obtain t v where f: "f = (t, v)" by (cases f)
  have "encodeFields ((t, v) # fs) = Inr s"
    using Cons.prems unfolding f .
  then obtain r where a: "twoDigits t" "utf8ByteLength v \<le> 99"
    "encodeFields fs = Inr r" "s = encoded t v @ r"
    by (rule encodeFields_Cons)
  from Cons.IH [OF a(3)] a f show ?case by (simp add: encodedFields_simps)
qed

text \<open>
  A generated payload of ASCII characters decodes to its own top-level fields: the
  payload is the encoding of a sequence of fields (the last one the checksum, tag \<open>63\<close>),
  and \<open>decodeTlv\<close> returns the object that stores these fields in order.
\<close>

theorem decodeTlv_generate_ascii:
  assumes "generate e g = Inr r" and "asciiOnly (qr r)"
  shows "\<exists>fs. encodeFields fs = Inr (qr r) \<and> decodeTlv (qr r) = Some (storeFields Map.empty fs)"
proof -
  let ?p = "encodedFields (topFields e g)"
  let ?c = "crc16CcittFalseHex (?p @ ascii ''6304'')"
  let ?fs = "topFields e g @ [(ascii ''63'', ?c)]"
  note s = generate_success [OF assms(1)]
  from assms(2) s(2) have c: "asciiOnly ?c" by (simp add: asciiOnly_append)
  then have l: "utf8ByteLength ?c = 4" by (simp add: utf8ByteLength_ascii length_crc16)
  have "encodeFields [(ascii ''63'', ?c)] = Inr (encoded (ascii ''63'') ?c)"
    using l by (simp add: tlv_eq twoDigits_literals bindE_simps)
  from encodeFields_append [OF s(1) this] have f: "encodeFields ?fs = Inr (?p @ encoded (ascii ''63'') ?c)" .
  have "encoded (ascii ''63'') ?c = ascii ''6304'' @ ?c"
    using l by (simp add: encoded_def padStart_def decimal.simps digitChar_def ascii_simps)
  with f s(2) have 1: "encodeFields ?fs = Inr (qr r)" by simp
  from encodeFields_fields [OF 1] assms(2)
  have "decodeTlv (encodedFields ?fs) = Some (storeFields Map.empty ?fs)"
    by (intro decodeTlv_encodedFields) simp_all
  with encodeFields_fields [OF 1] have 2: "decodeTlv (qr r) = Some (storeFields Map.empty ?fs)"
    by simp
  from 1 2 show ?thesis by blast
qed

theorem decodeTlv_generate_ascii_witness:
  "generate exampleEnv staticJohn = Inr staticResult \<and> asciiOnly (qr staticResult) \<and>
   (\<exists>fs. encodeFields fs = Inr (qr staticResult) \<and>
      decodeTlv (qr staticResult) = Some (storeFields Map.empty fs))"
proof -
  have a: "asciiOnly (qr staticResult)"
    by (simp add: staticResult_def asciiOnly_def ascii_simps)
  from decodeTlv_generate_ascii [OF generate_static a] generate_static a show ?thesis by blast
qed

end
